theory Spec2Isabelle
  imports Complex_Main "HOL-Library.Log_Nat"
begin

section \<open>The arithmetic of \<^verbatim>\<open>double\<close>\<close>

text \<open>
  \<^verbatim>\<open>co_routines.cpp\<close> computes on \<^verbatim>\<open>double\<close> fields with \<^verbatim>\<open>+\<close>, \<^verbatim>\<open>-\<close> and the four
  comparisons only. A \<^verbatim>\<open>double\<close> is modelled by its value: a rational number, one of the two
  infinities, or NaN. The two zeros are one value (no operation of the program tells them
  apart). Addition and subtraction compute the exact rational result and round it to the
  nearest binary64 number, ties to the even significand, as a C++ implementation with IEEE
  754 arithmetic in its default rounding mode does.
\<close>

datatype double = Fin rat | PInf | NInf | NaN

text \<open>\<open>ilog2 q\<close> is \<open>\<lfloor>log\<^sub>2 \<bar>q\<bar>\<rfloor>\<close> for \<open>q \<noteq> 0\<close>: the binade of \<open>q\<close>.\<close>

definition ilog2 :: "rat \<Rightarrow> int" where
  "ilog2 q = (if 1 \<le> \<bar>q\<bar> then bitlen \<lfloor>\<bar>q\<bar>\<rfloor> - 1
              else - bitlen (\<lceil>1 / \<bar>q\<bar>\<rceil> - 1))"

text \<open>
  The distance between neighbouring binary64 numbers around \<open>q\<close>: 52 fraction bits below
  the binade, and the subnormal numbers share the spacing of the lowest normal binade.
\<close>

definition quantum :: "rat \<Rightarrow> rat" where
  "quantum q = 2 powi (max (ilog2 q) (- 1022) - 52)"

definition round_ties_even :: "rat \<Rightarrow> int" where
  "round_ties_even x =
     (let f = \<lfloor>x\<rfloor>; d = x - of_int f
      in if d < 1 / 2 then f
         else if 1 / 2 < d then f + 1
         else if even f then f else f + 1)"

text \<open>Rounding a rational to binary64; a result of magnitude \<open>2\<^sup>1\<^sup>0\<^sup>2\<^sup>4\<close> overflows.\<close>

definition rnd :: "rat \<Rightarrow> double" where
  "rnd q =
     (if q = 0 then Fin 0
      else let u = quantum q; r = of_int (round_ties_even (q / u)) * u
           in if 2 ^ 1024 \<le> \<bar>r\<bar> then (if 0 < q then PInf else NInf) else Fin r)"

fun dadd :: "double \<Rightarrow> double \<Rightarrow> double" where
  "dadd (Fin a) (Fin b) = rnd (a + b)"
| "dadd NaN _ = NaN"
| "dadd _ NaN = NaN"
| "dadd PInf NInf = NaN"
| "dadd NInf PInf = NaN"
| "dadd PInf _ = PInf"
| "dadd _ PInf = PInf"
| "dadd NInf _ = NInf"
| "dadd _ NInf = NInf"

fun dsub :: "double \<Rightarrow> double \<Rightarrow> double" where
  "dsub (Fin a) (Fin b) = rnd (a - b)"
| "dsub NaN _ = NaN"
| "dsub _ NaN = NaN"
| "dsub PInf PInf = NaN"
| "dsub NInf NInf = NaN"
| "dsub PInf _ = PInf"
| "dsub _ NInf = PInf"
| "dsub NInf _ = NInf"
| "dsub _ PInf = NInf"

text \<open>\<open>dlt a b\<close> is \<^verbatim>\<open>a < b\<close> and \<open>dle a b\<close> is \<^verbatim>\<open>a <= b\<close>; a comparison with NaN is false.\<close>

fun dlt :: "double \<Rightarrow> double \<Rightarrow> bool" where
  "dlt (Fin a) (Fin b) = (a < b)"
| "dlt NaN _ = False"
| "dlt _ NaN = False"
| "dlt _ NInf = False"
| "dlt PInf _ = False"
| "dlt NInf _ = True"
| "dlt _ PInf = True"

fun dle :: "double \<Rightarrow> double \<Rightarrow> bool" where
  "dle (Fin a) (Fin b) = (a \<le> b)"
| "dle NaN _ = False"
| "dle _ NaN = False"
| "dle NInf _ = True"
| "dle _ PInf = True"
| "dle _ NInf = False"
| "dle PInf _ = False"

text \<open>\<^verbatim>\<open>a > b\<close> and \<^verbatim>\<open>a >= b\<close>.\<close>

definition dgt :: "double \<Rightarrow> double \<Rightarrow> bool" where
  "dgt a b = dlt b a"

definition dge :: "double \<Rightarrow> double \<Rightarrow> bool" where
  "dge a b = dle b a"

text \<open>
  The literals of the source. \<^verbatim>\<open>0.1\<close>, \<^verbatim>\<open>0.8\<close>, \<^verbatim>\<open>0.01\<close> and \<^verbatim>\<open>94.9\<close> are the binary64
  numbers nearest to the decimal fractions; the \<^verbatim>\<open>int\<close> literals \<^verbatim>\<open>18\<close> and \<^verbatim>\<open>20\<close> convert
  exactly.
\<close>

definition lit_0_1 :: double where "lit_0_1 = rnd (1 / 10)"
definition lit_0_8 :: double where "lit_0_8 = rnd (8 / 10)"
definition lit_0_01 :: double where "lit_0_01 = rnd (1 / 100)"
definition lit_94_9 :: double where "lit_94_9 = rnd (949 / 10)"
definition lit_18 :: double where "lit_18 = Fin 18"
definition lit_20 :: double where "lit_20 = Fin 20"

section \<open>The data of the program\<close>

text \<open>\<^verbatim>\<open>enum State\<close> (line 6) and \<^verbatim>\<open>struct message\<close> (lines 9 to 13).\<close>

datatype State = start | cooling | heating | charging | finish | standby

record message =
  temperature :: double
  batteryCharge :: double
  state :: State

section \<open>The coroutines\<close>

text \<open>
  A coroutine of type \<^verbatim>\<open>return_object\<close> is its frame: the point where it is suspended, its
  own copy \<open>frame\<close> of the parameter \<^verbatim>\<open>info\<close>, and the member \<^verbatim>\<open>info\<close> of its promise, which
  \<^verbatim>\<open>yield_value\<close> and \<^verbatim>\<open>return_value\<close> (lines 26 to 33) overwrite and which holds no value
  before the first of them. \<^verbatim>\<open>acclimate\<close> suspends at its four \<^verbatim>\<open>co_yield\<close>s (lines 45, 51,
  55 and 59); every coroutine suspends at the final suspend point when its body is over.
\<close>

datatype point = cooling_yield | heating_yield | band_yield | low_yield | final_suspend

record coroutine =
  suspended_at :: point
  frame :: message
  promise :: "message option"

text \<open>
  What can go wrong in \<^verbatim>\<open>main\<close>: resuming a coroutine that is at its final suspend point,
  calling through the handle before it is assigned, reading the promise before anything was
  stored in it, and a call of \<^verbatim>\<open>charger\<close> whose loop never ends.
\<close>

datatype fault = resumed_when_done | handle_unset | promise_unset | charger_diverges

text \<open>
  The body of \<^verbatim>\<open>acclimate\<close> from line 53 on, with \<open>p\<close> the promise's \<^verbatim>\<open>info\<close> so far. When
  the test fails, control leaves the body without a yield. (The promise type declares no
  \<^verbatim>\<open>return_void\<close>; the model takes control to the final suspend point there, as the
  compilers do.)
\<close>

definition band_check :: "message option \<Rightarrow> message \<Rightarrow> coroutine" where
  "band_check p info =
     (if dle (temperature info) lit_20 \<or> dge (temperature info) lit_18
      then let info' = info\<lparr>state := charging\<rparr>
           in \<lparr>suspended_at = band_yield, frame = info', promise = Some info'\<rparr>
      else \<lparr>suspended_at = final_suspend, frame = info, promise = p\<rparr>)"

text \<open>From the test of the second loop (line 47) to the next suspension.\<close>

definition heating_loop :: "message option \<Rightarrow> message \<Rightarrow> coroutine" where
  "heating_loop p info =
     (if dlt (temperature info) lit_18 \<and> dgt (batteryCharge info) lit_20
      then let info' = info\<lparr>temperature := dadd (temperature info) lit_0_1,
                             batteryCharge := dsub (batteryCharge info) lit_0_8,
                             state := heating\<rparr>
           in \<lparr>suspended_at = heating_yield, frame = info', promise = Some info'\<rparr>
      else band_check p info)"

text \<open>From the test of the first loop (line 41) to the next suspension.\<close>

definition cooling_loop :: "message option \<Rightarrow> message \<Rightarrow> coroutine" where
  "cooling_loop p info =
     (if dgt (temperature info) lit_20 \<and> dgt (batteryCharge info) lit_20
      then let info' = info\<lparr>temperature := dsub (temperature info) lit_0_1,
                             batteryCharge := dsub (batteryCharge info) lit_0_8,
                             state := cooling\<rparr>
           in \<lparr>suspended_at = cooling_yield, frame = info', promise = Some info'\<rparr>
      else heating_loop p info)"

text \<open>
  \<^verbatim>\<open>acclimate(info)\<close>: \<^verbatim>\<open>initial_suspend\<close> is \<^verbatim>\<open>suspend_never\<close>, so the call runs the body
  to its first suspension and returns the handle of the suspended coroutine.
\<close>

definition acclimate :: "message \<Rightarrow> coroutine" where
  "acclimate info =
     (if dgt (batteryCharge info) lit_20 then cooling_loop None info
      else let info' = info\<lparr>state := charging\<rparr>
           in \<lparr>suspended_at = low_yield, frame = info', promise = Some info'\<rparr>)"

text \<open>\<^verbatim>\<open>handle()\<close>: the coroutine continues behind the \<^verbatim>\<open>co_yield\<close> where it waits.\<close>

definition resume :: "coroutine \<Rightarrow> fault + coroutine" where
  "resume co =
     (case suspended_at co of
        cooling_yield \<Rightarrow> Inr (cooling_loop (promise co) (frame co))
      | heating_yield \<Rightarrow> Inr (heating_loop (promise co) (frame co))
      | band_yield \<Rightarrow> Inr (co\<lparr>suspended_at := final_suspend\<rparr>)
      | low_yield \<Rightarrow> Inr (co\<lparr>suspended_at := final_suspend\<rparr>)
      | final_suspend \<Rightarrow> Inl resumed_when_done)"

text \<open>\<open>resumes n co\<close> resumes \<open>co\<close> \<open>n\<close> times.\<close>

fun resumes :: "nat \<Rightarrow> coroutine \<Rightarrow> fault + coroutine" where
  "resumes 0 co = Inr co"
| "resumes (Suc n) co = (case resume co of Inl e \<Rightarrow> Inl e | Inr co' \<Rightarrow> resumes n co')"

text \<open>
  The readings a consumer gets from \<open>co\<close>: the one it is suspended with, then those of up
  to \<open>n - 1\<close> resumptions, until the final suspend point.
\<close>

fun yielded :: "nat \<Rightarrow> coroutine \<Rightarrow> message list" where
  "yielded 0 co = []"
| "yielded (Suc n) co =
     (if suspended_at co = final_suspend then []
      else (case promise co of None \<Rightarrow> [] | Some r \<Rightarrow> [r])
           @ (case resume co of Inl e \<Rightarrow> [] | Inr co' \<Rightarrow> yielded n co'))"

text \<open>
  \<^verbatim>\<open>charger(info)\<close> (lines 63 to 69): the loop runs within the call, \<^verbatim>\<open>co_return\<close> stores the
  final \<^verbatim>\<open>info\<close> in the promise, and the coroutine waits at its final suspend point. The
  result is \<open>None\<close> when the loop never ends. \<open>charge_body\<close> is the body of the loop (lines
  65 and 66).
\<close>

definition charge_body :: "message \<Rightarrow> message" where
  "charge_body info = info\<lparr>batteryCharge := dadd (batteryCharge info) lit_0_1,
                            temperature := dadd (temperature info) lit_0_01\<rparr>"

partial_function (option) charger :: "message \<Rightarrow> coroutine option" where
  "charger info =
     (if dlt (batteryCharge info) lit_94_9 then charger (charge_body info)
      else Some \<lparr>suspended_at = final_suspend, frame = info, promise = Some info\<rparr>)"

declare charger.simps [code]

section \<open>\<^verbatim>\<open>init_values\<close> and \<^verbatim>\<open>main\<close>\<close>

text \<open>
  \<^verbatim>\<open>rand()\<close> is an input: \<open>rng\<close> gives the results of the coming calls, \<open>rng 0\<close> the next
  one. \<^verbatim>\<open>init_values\<close> (lines 71 to 87) takes two of them. The texts written to
  \<^verbatim>\<open>std::cout\<close> are left out.
\<close>

definition init_values :: "(nat \<Rightarrow> nat) \<Rightarrow> message \<Rightarrow> message \<times> (nat \<Rightarrow> nat)" where
  "init_values rng p_info =
     (let i = p_info\<lparr>temperature := Fin (of_nat (rng 0 mod 55)),
                      batteryCharge := Fin (of_nat (rng 1 mod 100))\<rparr>;
          i' = (if dlt (temperature i) lit_18 \<and> dgt (batteryCharge i) lit_20
                then i\<lparr>state := heating\<rparr>
                else if dgt (temperature i) lit_20 \<and> dgt (batteryCharge i) lit_20
                then i\<lparr>state := cooling\<rparr>
                else if dgt (batteryCharge i) lit_20
                then i\<lparr>state := finish\<rparr>
                else i\<lparr>state := charging\<rparr>)
      in (i', \<lambda>n. rng (n + 2)))"

text \<open>
  The variables of \<^verbatim>\<open>main\<close> that live across iterations: \<^verbatim>\<open>info\<close>, the handle of the
  acclimation coroutine (\<^verbatim>\<open>promise\<close> points into the same coroutine) and the state of
  \<^verbatim>\<open>rand()\<close>. \<^verbatim>\<open>handle2\<close> and \<^verbatim>\<open>promise2\<close> are dead after the iteration that sets them.
\<close>

record controller =
  info :: message
  handle :: "coroutine option"
  rand_state :: "nat \<Rightarrow> nat"

text \<open>\<^verbatim>\<open>handle(); info = promise->info;\<close> (lines 110 and 111, 114 and 115).\<close>

definition resume_and_adopt :: "controller \<Rightarrow> fault + controller" where
  "resume_and_adopt c =
     (case handle c of
        None \<Rightarrow> Inl handle_unset
      | Some h \<Rightarrow>
          (case resume h of
             Inl e \<Rightarrow> Inl e
           | Inr h' \<Rightarrow>
               (case promise h' of
                  None \<Rightarrow> Inl promise_unset
                | Some i \<Rightarrow> Inr (c\<lparr>info := i, handle := Some h'\<rparr>))))"

text \<open>\<^verbatim>\<open>case charging\<close> (lines 121 to 142).\<close>

definition charging_case :: "controller \<Rightarrow> fault + controller" where
  "charging_case c =
     (case charger (info c) of
        None \<Rightarrow> Inl charger_diverges
      | Some h2 \<Rightarrow>
          (case promise h2 of
             None \<Rightarrow> Inl promise_unset
           | Some i \<Rightarrow>
               if dlt (temperature i) lit_18
               then let h = acclimate i
                    in (case promise h of
                          None \<Rightarrow> Inl promise_unset
                        | Some j \<Rightarrow> Inr (c\<lparr>info := j\<lparr>state := heating\<rparr>, handle := Some h\<rparr>))
               else if dgt (temperature i) lit_20
               then Inr (c\<lparr>info := i\<lparr>state := cooling\<rparr>, handle := Some (acclimate i)\<rparr>)
               else Inr (c\<lparr>info := i\<lparr>state := finish\<rparr>\<rparr>)))"

text \<open>The \<^verbatim>\<open>switch\<close> of lines 102 to 143: one iteration of the loop of \<^verbatim>\<open>main\<close>.\<close>

definition dispatch :: "controller \<Rightarrow> fault + controller" where
  "dispatch c =
     (case state (info c) of
        start \<Rightarrow>
          (let (i, r) = init_values (rand_state c) (info c)
           in Inr (c\<lparr>info := i, handle := Some (acclimate i), rand_state := r\<rparr>))
      | cooling \<Rightarrow> resume_and_adopt c
      | heating \<Rightarrow> resume_and_adopt c
      | finish \<Rightarrow> Inr (c\<lparr>info := (info c)\<lparr>state := start\<rparr>\<rparr>)
      | charging \<Rightarrow> charging_case c
      | standby \<Rightarrow> Inr c)"

text \<open>
  \<open>main_loop n c\<close>: up to \<open>n\<close> iterations of \<^verbatim>\<open>while(info.state != 5)\<close>, 5 being \<^verbatim>\<open>standby\<close>.
  \<open>exited\<close> tells whether the loop condition has failed.
\<close>

definition exited :: "controller \<Rightarrow> bool" where
  "exited c = (state (info c) = standby)"

fun main_loop :: "nat \<Rightarrow> controller \<Rightarrow> fault + controller" where
  "main_loop 0 c = Inr c"
| "main_loop (Suc n) c =
     (if exited c then Inr c
      else case dispatch c of Inl e \<Rightarrow> Inl e | Inr c' \<Rightarrow> main_loop n c')"

text \<open>
  \<^verbatim>\<open>main\<close> enters the loop with \<^verbatim>\<open>info.state = start\<close>, the other two fields of \<^verbatim>\<open>info\<close> and
  the handle not initialised: \<open>t0\<close> and \<open>b0\<close> stand for whatever the fields hold.
\<close>

definition main_entry :: "double \<Rightarrow> double \<Rightarrow> (nat \<Rightarrow> nat) \<Rightarrow> controller" where
  "main_entry t0 b0 rng =
     \<lparr>info = \<lparr>temperature = t0, batteryCharge = b0, state = start\<rparr>,
      handle = None, rand_state = rng\<rparr>"

text \<open>
  The finite binary64 numbers: an integer of at most 53 bits times a power of two not below
  \<open>2\<^sup>-\<^sup>1\<^sup>0\<^sup>7\<^sup>4\<close>, of magnitude below \<open>2\<^sup>1\<^sup>0\<^sup>2\<^sup>4\<close>.
\<close>

definition binary64 :: "rat \<Rightarrow> bool" where
  "binary64 r \<longleftrightarrow>
     (\<exists>k j. r = of_int k * 2 powi j \<and> \<bar>k\<bar> \<le> 2 ^ 53 \<and> - 1074 \<le> j) \<and> \<bar>r\<bar> < 2 ^ 1024"

text \<open>Short forms for the readings and the suspended coroutines of the examples.\<close>

abbreviation reading :: "rat \<Rightarrow> rat \<Rightarrow> State \<Rightarrow> message" where
  "reading t b s \<equiv> \<lparr>temperature = Fin t, batteryCharge = Fin b, state = s\<rparr>"

abbreviation suspended :: "point \<Rightarrow> message \<Rightarrow> coroutine" where
  "suspended p r \<equiv> \<lparr>suspended_at = p, frame = r, promise = Some r\<rparr>"

section \<open>Predicates for the proofs\<close>

text \<open>
  \<open>ends_within n tagged co\<close>: at most \<open>n\<close> resumptions take \<open>co\<close> to its final suspend point,
  and if \<open>tagged\<close> the promise then holds a reading with \<^verbatim>\<open>state = charging\<close>.
\<close>

definition ends_within :: "nat \<Rightarrow> bool \<Rightarrow> coroutine \<Rightarrow> bool" where
  "ends_within n tagged co \<longleftrightarrow>
     (\<exists>j\<le>n. \<exists>co'. resumes j co = Inr co' \<and> suspended_at co' = final_suspend
        \<and> (tagged \<longrightarrow> (\<exists>r. promise co' = Some r \<and> state r = charging)))"

text \<open>A battery charge between 0 and 100, the range that the specification gives it.\<close>

fun in_domain :: "double \<Rightarrow> bool" where
  "in_domain (Fin q) = (0 \<le> q \<and> q \<le> 100)"
| "in_domain _ = False"

text \<open>
  The invariant of the loop of \<^verbatim>\<open>main\<close>. While \<^verbatim>\<open>info.state\<close> is \<^verbatim>\<open>cooling\<close> or \<^verbatim>\<open>heating\<close>,
  the handle is a coroutine suspended in one of its two loops (\<open>live_handle\<close>); a
  resumption leaves it there or at line 55 (\<open>good_suspension\<close>).
\<close>

definition live_handle :: "coroutine \<Rightarrow> bool" where
  "live_handle h \<longleftrightarrow>
     (suspended_at h = cooling_yield \<or> suspended_at h = heating_yield)
     \<and> in_domain (batteryCharge (frame h)) \<and> temperature (frame h) \<noteq> NaN
     \<and> promise h = Some (frame h)
     \<and> (state (frame h) = cooling \<or> state (frame h) = heating)"

definition good_suspension :: "coroutine \<Rightarrow> bool" where
  "good_suspension x \<longleftrightarrow>
     live_handle x
     \<or> (suspended_at x = band_yield \<and> promise x = Some (frame x) \<and> state (frame x) = charging
         \<and> in_domain (batteryCharge (frame x)))"

definition loop_inv :: "controller \<Rightarrow> bool" where
  "loop_inv c \<longleftrightarrow>
     state (info c) \<noteq> standby
     \<and> (state (info c) = charging \<longrightarrow> in_domain (batteryCharge (info c)))
     \<and> (state (info c) = cooling \<or> state (info c) = heating \<longrightarrow>
          (\<exists>h. handle c = Some h \<and> live_handle h))"

section \<open>Facts about rounding\<close>

lemma pow2_le_of_int: "(2::int) ^ k \<le> m \<Longrightarrow> (2::rat) ^ k \<le> of_int m"
  by (metis of_int_le_iff of_int_numeral of_int_power)

lemma of_int_less_pow2: "m < (2::int) ^ k \<Longrightarrow> of_int m + 1 \<le> (2::rat) ^ k"
proof -
  assume "m < 2 ^ k"
  then have "m + 1 \<le> 2 ^ k" by simp
  then have "(of_int (m + 1) :: rat) \<le> of_int (2 ^ k)" by (simp only: of_int_le_iff)
  then show ?thesis by simp
qed

lemma ilog2_lower: 
  assumes "q \<noteq> 0" shows "2 powi (ilog2 q) \<le> \<bar>q\<bar>"
proof (cases "1 \<le> \<bar>q\<bar>")
  case True
  define n where "n = \<lfloor>\<bar>q\<bar>\<rfloor>"
  have n1: "1 \<le> n" using True by (simp add: n_def le_floor_iff)
  then have b1: "1 \<le> bitlen n" 
    by (metis bitlen_eq_zero_iff bitlen_nonneg int_one_le_iff_zero_less less_le not_less)
  have "(2::int) ^ nat (bitlen n - 1) \<le> n" using bitlen_bounds[of n] n1 by simp
  then have "(2::rat) ^ nat (bitlen n - 1) \<le> of_int n" by (rule pow2_le_of_int)
  also have "\<dots> \<le> \<bar>q\<bar>" by (simp add: n_def)
  finally have "(2::rat) ^ nat (bitlen n - 1) \<le> \<bar>q\<bar>" .
  moreover have "ilog2 q = bitlen n - 1" using True by (simp add: ilog2_def n_def)
  ultimately show ?thesis using b1 by (simp add: power_int_nonneg_exp)
next
  case False
  define r where "r = 1 / \<bar>q\<bar>"
  define m where "m = \<lceil>r\<rceil> - 1"
  have q0: "0 < \<bar>q\<bar>" using assms by simp
  have r1: "1 < r" using False q0 by (simp add: r_def)
  have m1: "1 \<le> m" using r1 by (simp add: m_def less_ceiling_iff)
  have "m < 2 ^ nat (bitlen m)" using bitlen_bounds[of m] m1 by simp
  then have "of_int m + 1 \<le> (2::rat) ^ nat (bitlen m)" by (rule of_int_less_pow2)
  moreover have "r \<le> of_int m + 1" by (simp add: m_def)
  ultimately have "r \<le> 2 ^ nat (bitlen m)" by (rule order_trans[rotated])
  then have "1 \<le> \<bar>q\<bar> * 2 ^ nat (bitlen m)" 
    using q0 by (simp add: r_def field_simps)
  then have "1 / 2 ^ nat (bitlen m) \<le> \<bar>q\<bar>"
    by (simp add: field_simps)
  moreover have "ilog2 q = - bitlen m" using False by (simp add: ilog2_def m_def r_def)
  ultimately show ?thesis 
    by (simp add: power_int_minus_divide power_int_nonneg_exp bitlen_nonneg)
qed

lemma ilog2_upper: 
  assumes "q \<noteq> 0" shows "\<bar>q\<bar> < 2 powi (ilog2 q + 1)"
proof (cases "1 \<le> \<bar>q\<bar>")
  case True
  define n where "n = \<lfloor>\<bar>q\<bar>\<rfloor>"
  have n1: "1 \<le> n" using True by (simp add: n_def le_floor_iff)
  have "n < 2 ^ nat (bitlen n)" using bitlen_bounds[of n] n1 by simp
  then have "of_int n + 1 \<le> (2::rat) ^ nat (bitlen n)" by (rule of_int_less_pow2)
  moreover have "\<bar>q\<bar> < of_int n + 1" using floor_correct[of "\<bar>q\<bar>"] by (simp add: n_def)
  ultimately have "\<bar>q\<bar> < 2 ^ nat (bitlen n)" by (rule less_le_trans[rotated])
  moreover have "ilog2 q = bitlen n - 1" using True by (simp add: ilog2_def n_def)
  ultimately show ?thesis by (simp add: power_int_nonneg_exp bitlen_nonneg)
next
  case False
  define r where "r = 1 / \<bar>q\<bar>"
  define m where "m = \<lceil>r\<rceil> - 1"
  have q0: "0 < \<bar>q\<bar>" using assms by simp
  have r1: "1 < r" using False q0 by (simp add: r_def)
  have m1: "1 \<le> m" using r1 by (simp add: m_def less_ceiling_iff)
  then have b1: "1 \<le> bitlen m" 
    by (metis bitlen_eq_zero_iff bitlen_nonneg int_one_le_iff_zero_less less_le not_less)
  have "(2::int) ^ nat (bitlen m - 1) \<le> m" using bitlen_bounds[of m] m1 by simp
  then have "(2::rat) ^ nat (bitlen m - 1) \<le> of_int m" by (rule pow2_le_of_int)
  moreover have "of_int m < r" using ceiling_correct[of r] by (simp add: m_def)
  ultimately have "2 ^ nat (bitlen m - 1) < r" by (rule le_less_trans)
  then have "\<bar>q\<bar> * 2 ^ nat (bitlen m - 1) < 1" 
    using q0 by (simp add: r_def field_simps)
  then have "\<bar>q\<bar> < 1 / 2 ^ nat (bitlen m - 1)"
    by (simp add: field_simps)
  moreover have "ilog2 q = - bitlen m" using False by (simp add: ilog2_def m_def r_def)
  moreover have "- bitlen m + 1 = - (bitlen m - 1)" by simp
  ultimately show ?thesis using b1
    by (simp only: power_int_minus_divide) (simp add: power_int_nonneg_exp)
qed

lemma ilog2_unique:
  assumes "2 powi e \<le> \<bar>q\<bar>" "\<bar>q\<bar> < 2 powi (e + 1)"
  shows "ilog2 q = e"
proof -
  have q0: "q \<noteq> 0" using assms(1) 
    by (metis abs_zero not_le zero_less_numeral zero_less_power_int)
  have "(2::rat) powi e < 2 powi (ilog2 q + 1)" 
    using assms(1) ilog2_upper[OF q0] by simp
  then have "e < ilog2 q + 1"
    by (metis not_less one_le_numeral power_int_increasing)
  moreover have "(2::rat) powi (ilog2 q) < 2 powi (e + 1)" 
    using assms(2) ilog2_lower[OF q0] by simp
  then have "ilog2 q < e + 1"
    by (metis not_less one_le_numeral power_int_increasing)
  ultimately show ?thesis by simp
qed

lemma round_ties_even_error: "\<bar>of_int (round_ties_even x) - x\<bar> \<le> 1 / 2"
proof -
  have "of_int \<lfloor>x\<rfloor> \<le> x" "x < of_int \<lfloor>x\<rfloor> + 1" using floor_correct[of x] by simp_all
  then show ?thesis
    by (auto simp: round_ties_even_def Let_def abs_le_iff)
qed

lemma quantum_pos: "0 < quantum q"
  by (simp add: quantum_def)

lemma rounded_error:
  "\<bar>of_int (round_ties_even (q / quantum q)) * quantum q - q\<bar> \<le> quantum q / 2"
proof -
  let ?u = "quantum q"
  have u: "0 < ?u" by (rule quantum_pos)
  have "of_int (round_ties_even (q / ?u)) * ?u - q
        = (of_int (round_ties_even (q / ?u)) - q / ?u) * ?u"
    using u by (simp add: field_simps)
  then have "\<bar>of_int (round_ties_even (q / ?u)) * ?u - q\<bar> 
        = \<bar>of_int (round_ties_even (q / ?u)) - q / ?u\<bar> * \<bar>?u\<bar>"
    by (simp only: abs_mult)
  also have "\<dots> = \<bar>of_int (round_ties_even (q / ?u)) - q / ?u\<bar> * ?u"
    using u by simp
  also have "\<dots> \<le> 1 / 2 * ?u"
    using round_ties_even_error[of "q / ?u"] u by (intro mult_right_mono) simp_all
  finally show ?thesis by simp
qed

lemma rnd_in_binade:
  assumes "2 powi e \<le> \<bar>q\<bar>" "\<bar>q\<bar> < 2 powi (e + 1)" "- 1022 \<le> e" "e \<le> 1022"
  shows "rnd q = Fin (of_int (round_ties_even (q / 2 powi (e - 52))) * 2 powi (e - 52))"
proof -
  have q0: "q \<noteq> 0" using assms(1) 
    by (metis abs_zero not_le zero_less_numeral zero_less_power_int)
  have il: "ilog2 q = e" using assms(1,2) by (rule ilog2_unique)
  have qu: "quantum q = 2 powi (e - 52)" using assms(3) by (simp add: quantum_def il max_def)
  let ?r = "of_int (round_ties_even (q / quantum q)) * quantum q"
  have "\<bar>?r\<bar> \<le> \<bar>q\<bar> + quantum q / 2" using rounded_error[of q] by linarith
  also have "\<dots> < 2 powi (e + 1) + 2 powi (e - 52)" 
  proof -
    have "(0::rat) < 2 powi (e - 52)" by simp
    then show ?thesis using assms(2) unfolding qu by linarith
  qed
  also have "\<dots> \<le> 2 powi (e + 1) + 2 powi (e + 1)"
    by (simp add: power_int_increasing)
  also have "\<dots> = 2 powi (e + 2)" 
    by (simp add: power_int_add)
  also have "\<dots> \<le> 2 powi 1024"
    using assms(4) by (intro power_int_increasing) simp_all
  finally have "\<bar>?r\<bar> < 2 ^ 1024" by simp
  then show ?thesis using q0 by (simp add: rnd_def Let_def qu)
qed

lemma rnd_error:
  assumes "\<bar>q\<bar> < 2 powi (e + 1)" "- 1022 \<le> e" "e \<le> 1022"
  shows "\<exists>r. rnd q = Fin r \<and> \<bar>r - q\<bar> \<le> 2 powi (e - 53)"
proof (cases "q = 0")
  case True
  then show ?thesis by (simp add: rnd_def)
next
  case False
  have "(2::rat) powi (ilog2 q) < 2 powi (e + 1)" 
    using assms(1) ilog2_lower[OF False] by simp
  then have il: "ilog2 q \<le> e"
    by (metis not_less one_le_numeral power_int_increasing zle_add1_eq_le)
  have qu: "quantum q \<le> 2 powi (e - 52)" 
    unfolding quantum_def using assms(2) il by (intro power_int_increasing) simp_all
  let ?r = "of_int (round_ties_even (q / quantum q)) * quantum q"
  have err: "\<bar>?r - q\<bar> \<le> 2 powi (e - 53)"
  proof -
    have "\<bar>?r - q\<bar> \<le> quantum q / 2" by (rule rounded_error)
    also have "\<dots> \<le> 2 powi (e - 52) / 2" using qu by simp
    also have "\<dots> = 2 powi (e - 53)" by (simp add: power_int_diff)
    finally show ?thesis .
  qed
  have "\<bar>?r\<bar> \<le> \<bar>q\<bar> + 2 powi (e - 53)" using err by linarith
  also have "\<dots> < 2 powi (e + 1) + 2 powi (e - 53)" 
    using assms(1) by simp
  also have "\<dots> \<le> 2 powi (e + 1) + 2 powi (e + 1)"
    by (simp add: power_int_increasing)
  also have "\<dots> = 2 powi (e + 2)" 
    by (simp add: power_int_add)
  also have "\<dots> \<le> 2 powi 1024"
    using assms(3) by (intro power_int_increasing) simp_all
  finally have "\<bar>?r\<bar> < 2 ^ 1024" by simp
  then have "rnd q = Fin ?r" using False by (simp add: rnd_def Let_def)
  then show ?thesis using err by blast
qed

text \<open>What \<open>rnd\<close> returns is a binary64 number.\<close>

lemma round_ties_even_between:
  "\<lfloor>x\<rfloor> \<le> round_ties_even x \<and> round_ties_even x \<le> \<lfloor>x\<rfloor> + 1"
  by (simp add: round_ties_even_def Let_def)

lemma round_ties_even_of_int: "round_ties_even (of_int n) = n"
  by (simp add: round_ties_even_def Let_def)

lemma round_ties_even_bound:
  assumes "\<bar>x\<bar> \<le> of_int n"
  shows "\<bar>round_ties_even x\<bar> \<le> n"
proof (cases "x = of_int n")
  case True
  then show ?thesis using assms by (simp add: round_ties_even_of_int)
next
  case False
  have up: "x < of_int n" and lo: "- of_int n \<le> x" using assms False by (simp_all add: abs_le_iff)
  have "\<lfloor>x\<rfloor> < n" using up by (simp add: floor_less_iff)
  moreover have "- n \<le> \<lfloor>x\<rfloor>" using lo by (simp add: le_floor_iff)
  ultimately show ?thesis using round_ties_even_between[of x] by (simp add: abs_le_iff)
qed

lemma quotient_below_2_53:
  assumes "q \<noteq> 0"
  shows "\<bar>q / quantum q\<bar> \<le> 2 ^ 53"
proof -
  let ?e = "max (ilog2 q) (- 1022)"
  have "\<bar>q\<bar> < 2 powi (ilog2 q + 1)" using ilog2_upper[OF assms] .
  also have "\<dots> \<le> 2 powi (?e + 1)" by (intro power_int_increasing) simp_all
  finally have "\<bar>q\<bar> < 2 powi (?e + 1)" .
  moreover have "(2::rat) powi (?e + 1) = 2 ^ 53 * 2 powi (?e - 52)"
  proof -
    have "(2::rat) powi (53 + (?e - 52)) = 2 powi 53 * 2 powi (?e - 52)"
      by (rule power_int_add) simp
    moreover have "53 + (?e - 52) = ?e + 1" by simp
    ultimately show ?thesis by simp
  qed
  ultimately have "\<bar>q\<bar> < 2 ^ 53 * quantum q" by (simp add: quantum_def)
  then have "\<bar>q\<bar> / quantum q < 2 ^ 53" using quantum_pos[of q] by (simp add: field_simps)
  then show ?thesis using quantum_pos[of q] by simp
qed

lemma rnd_is_binary64: 
  assumes "rnd q = Fin r" 
  shows "binary64 r"
proof (cases "q = 0")
  case True
  then have "r = of_int 0 * 2 powi 0" using assms by (simp add: rnd_def)
  then have "\<exists>k j. r = of_int k * 2 powi j \<and> \<bar>k\<bar> \<le> 2 ^ 53 \<and> - 1074 \<le> j"
    by (intro exI[of _ 0] exI[of _ "0::int"]) simp
  moreover have "\<bar>r\<bar> < 2 ^ 1024" using True assms by (auto simp add: rnd_def)
  ultimately show ?thesis by (simp add: binary64_def)
next
  case False
  let ?k = "round_ties_even (q / quantum q)"
  let ?j = "max (ilog2 q) (- 1022) - 52"
  have r: "r = of_int ?k * quantum q" "\<bar>r\<bar> < 2 ^ 1024"
    using assms False by (simp_all add: rnd_def Let_def split: if_splits)
  have "\<bar>q / quantum q\<bar> \<le> of_int (2 ^ 53)" using quotient_below_2_53[OF False] by simp
  then have k: "\<bar>?k\<bar> \<le> 2 ^ 53" by (rule round_ties_even_bound)
  have "r = of_int ?k * 2 powi ?j \<and> \<bar>?k\<bar> \<le> 2 ^ 53 \<and> - 1074 \<le> ?j"
    using r(1) k by (simp add: quantum_def)
  then have "\<exists>k j. r = of_int k * 2 powi j \<and> \<bar>k\<bar> \<le> 2 ^ 53 \<and> - 1074 \<le> j"
    by blast
  then show ?thesis using r(2) by (simp add: binary64_def)
qed

text \<open>
  It is one that is nearest to the exact value, and half-way between two neighbours the
  one with the even significand.
\<close>

lemma round_ties_even_closest:
  "\<bar>of_int (round_ties_even x) - x\<bar> \<le> x - of_int \<lfloor>x\<rfloor>
   \<and> \<bar>of_int (round_ties_even x) - x\<bar> \<le> of_int \<lfloor>x\<rfloor> + 1 - x"
proof -
  define f :: rat where "f = of_int \<lfloor>x\<rfloor>"
  have f: "f \<le> x" "x < f + 1" using floor_correct[of x] by (simp_all add: f_def)
  consider "x - f < 1 / 2" | "1 / 2 < x - f" | "x - f = 1 / 2" by linarith
  then show ?thesis
  proof cases
    case 1
    then have "of_int (round_ties_even x) = f" by (simp add: round_ties_even_def Let_def f_def)
    then show ?thesis using 1 f unfolding f_def[symmetric] by simp
  next
    case 2
    then have "of_int (round_ties_even x) = f + 1" 
      by (simp add: round_ties_even_def Let_def f_def)
    then show ?thesis using 2 f unfolding f_def[symmetric] by simp
  next
    case 3
    then have "of_int (round_ties_even x) = f \<or> of_int (round_ties_even x) = f + 1" 
      by (simp add: round_ties_even_def Let_def f_def)
    then show ?thesis using 3 f unfolding f_def[symmetric] by auto
  qed
qed

lemma round_ties_even_nearest: "\<bar>of_int (round_ties_even x) - x\<bar> \<le> \<bar>of_int n - x\<bar>"
proof (cases "n \<le> \<lfloor>x\<rfloor>")
  case True
  then have "(of_int n :: rat) \<le> of_int \<lfloor>x\<rfloor>" by simp
  then show ?thesis using round_ties_even_closest[of x] by linarith
next
  case False
  then have "\<lfloor>x\<rfloor> + 1 \<le> n" by simp
  then have "(of_int (\<lfloor>x\<rfloor> + 1) :: rat) \<le> of_int n" by (simp only: of_int_le_iff)
  then have "(of_int \<lfloor>x\<rfloor> :: rat) + 1 \<le> of_int n" by simp
  then show ?thesis using round_ties_even_closest[of x] by linarith
qed

lemma grid_nearest:
  assumes "0 < u"
  shows "\<bar>of_int (round_ties_even (q / u)) * u - q\<bar> \<le> \<bar>of_int n * u - q\<bar>"
proof -
  have 1: "of_int (round_ties_even (q / u)) * u - q = (of_int (round_ties_even (q / u)) - q / u) * u"
    using assms by (simp add: field_simps)
  have 2: "of_int n * u - q = (of_int n - q / u) * u"
    using assms by (simp add: field_simps)
  have "\<bar>(of_int (round_ties_even (q / u)) - q / u) * u\<bar> \<le> \<bar>(of_int n - q / u) * u\<bar>"
    unfolding abs_mult using round_ties_even_nearest[of "q / u" n] assms
    by (intro mult_right_mono) simp_all
  then show ?thesis by (simp only: 1 2)
qed

lemma powi_multiple:
  assumes "j \<le> j'"
  shows "\<exists>n. of_int k * (2::rat) powi j' = of_int n * 2 powi j"
proof -
  have "(2::rat) powi j' = 2 powi (j' - j) * 2 powi j"
    by (simp flip: power_int_add)
  moreover have "(2::rat) powi (j' - j) = of_int (2 ^ nat (j' - j))"
    using assms by (simp add: power_int_nonneg_exp)
  ultimately have "of_int k * (2::rat) powi j' = of_int (k * 2 ^ nat (j' - j)) * 2 powi j"
    by simp
  then show ?thesis by blast
qed

lemma rnd_nearest:
  assumes "rnd q = Fin r" "binary64 r'"
  shows "\<bar>r - q\<bar> \<le> \<bar>r' - q\<bar>"
proof (cases "q = 0")
  case True
  then show ?thesis using assms(1) by (simp add: rnd_def)
next
  case False
  let ?e = "max (ilog2 q) (- 1022)"
  let ?u = "quantum q"
  have u: "?u = 2 powi (?e - 52)" by (simp add: quantum_def)
  have r: "r = of_int (round_ties_even (q / ?u)) * ?u"
    using assms(1) False by (simp add: rnd_def Let_def split: if_splits)
  obtain k' j' where r': "r' = of_int k' * 2 powi j'" "\<bar>k'\<bar> \<le> 2 ^ 53" "- 1074 \<le> j'"
    using assms(2) by (auto simp add: binary64_def)
  show ?thesis
  proof (cases "?e - 52 \<le> j'")
    case True
    then obtain n where "r' = of_int n * ?u" using powi_multiple r'(1) u by metis
    then show ?thesis using grid_nearest[OF quantum_pos, where n = n and q = q] r by simp
  next
    case low: False
    then have e: "?e = ilog2 q" using r'(3) by (simp add: max_def split: if_splits)
    have le: "2 powi ?e \<le> \<bar>q\<bar>" using ilog2_lower[OF False] e by simp
    have "\<bar>r'\<bar> = of_int \<bar>k'\<bar> * 2 powi j'" by (simp add: r'(1) abs_mult)
    also have "\<dots> \<le> of_int (2 ^ 53) * 2 powi j'"
      using r'(2) by (intro mult_right_mono) (simp_all only: of_int_le_iff, simp)
    also have "\<dots> = 2 powi (53 + j')"
      by (simp add: power_int_add)
    also have "\<dots> \<le> 2 powi ?e" using low by (intro power_int_increasing) simp_all
    finally have small: "\<bar>r'\<bar> \<le> 2 powi ?e" .
    have grid: "(2::rat) powi ?e = of_int (2 ^ 52) * ?u"
    proof -
      have "(2::rat) powi (52 + (?e - 52)) = 2 powi 52 * 2 powi (?e - 52)"
        by (rule power_int_add) simp
      moreover have "52 + (?e - 52) = ?e" by simp
      ultimately show ?thesis by (simp add: u)
    qed
    show ?thesis
    proof (cases "0 < q")
      case True
      have "\<bar>r - q\<bar> \<le> \<bar>of_int (2 ^ 52) * ?u - q\<bar>"
        unfolding r by (rule grid_nearest[OF quantum_pos])
      also have "\<dots> = q - 2 powi ?e" using le True by (simp add: grid)
      also have "\<dots> \<le> q - r'" using small by linarith
      also have "\<dots> \<le> \<bar>r' - q\<bar>" by simp
      finally show ?thesis .
    next
      case neg: False
      then have q: "q < 0" using \<open>q \<noteq> 0\<close> by simp
      have "\<bar>r - q\<bar> \<le> \<bar>of_int (- (2 ^ 52)) * ?u - q\<bar>"
        unfolding r by (rule grid_nearest[OF quantum_pos])
      also have "\<dots> = - q - 2 powi ?e" using le q by (simp add: grid)
      also have "\<dots> \<le> r' - q" using small by linarith
      also have "\<dots> \<le> \<bar>r' - q\<bar>" by simp
      finally show ?thesis .
    qed
  qed
qed

lemma round_ties_even_tie: "x - of_int \<lfloor>x\<rfloor> = 1 / 2 \<Longrightarrow> even (round_ties_even x)"
  by (simp add: round_ties_even_def Let_def)

section \<open>Evaluating the arithmetic\<close>

lemma floor_rat_numeral: "\<lfloor>numeral a / numeral b :: rat\<rfloor> = numeral a div numeral b"
  using floor_divide_of_int_eq[of "numeral a" "numeral b", where ?'a = rat] by simp

lemma rnd_nat_binade:
  assumes "2 ^ k \<le> \<bar>q\<bar>" "\<bar>q\<bar> < 2 * 2 ^ k" "k \<le> 52"
  shows "rnd q = Fin (of_int (round_ties_even (q * 2 ^ (52 - k))) / 2 ^ (52 - k))"
proof -
  have e: "2 powi (int k - 52) = (1::rat) / 2 ^ (52 - k)"
  proof -
    have "int k - 52 = - int (52 - k)" using assms(3) by simp
    then show ?thesis by (simp only: power_int_minus_divide power_int_of_nat)
  qed
  have "rnd q = Fin (of_int (round_ties_even (q / 2 powi (int k - 52))) * 2 powi (int k - 52))"
    using assms by (intro rnd_in_binade) (simp_all add: power_int_add)
  then show ?thesis by (simp add: e)
qed

lemmas rnd_1 = rnd_nat_binade[where k = 0, simplified]
lemmas rnd_2 = rnd_nat_binade[where k = 1, simplified]
lemmas rnd_4 = rnd_nat_binade[where k = 2, simplified]
lemmas rnd_8 = rnd_nat_binade[where k = 3, simplified]
lemmas rnd_16 = rnd_nat_binade[where k = 4, simplified]
lemmas rnd_32 = rnd_nat_binade[where k = 5, simplified]
lemmas rnd_64 = rnd_nat_binade[where k = 6, simplified]


lemma lit_0_1_value: "lit_0_1 = Fin (3602879701896397 / 36028797018963968)"
  unfolding lit_0_1_def
  by (subst rnd_in_binade[where e = "- 4"])
     (simp_all add: round_ties_even_def Let_def floor_rat_numeral)

lemma lit_0_8_value: "lit_0_8 = Fin (3602879701896397 / 4503599627370496)"
  unfolding lit_0_8_def
  by (subst rnd_in_binade[where e = "- 1"])
     (simp_all add: round_ties_even_def Let_def floor_rat_numeral)

lemma lit_0_01_value: "lit_0_01 = Fin (5764607523034235 / 576460752303423488)"
  unfolding lit_0_01_def
  by (subst rnd_in_binade[where e = "- 7"])
     (simp_all add: round_ties_even_def Let_def floor_rat_numeral)

lemma lit_94_9_value: "lit_94_9 = Fin (3338996911230157 / 35184372088832)"
  unfolding lit_94_9_def
  by (subst rnd_in_binade[where e = "6"])
     (simp_all add: round_ties_even_def Let_def floor_rat_numeral)

lemmas arith_eval =
  lit_0_1_value lit_0_8_value lit_0_01_value lit_94_9_value lit_18_def lit_20_def
  rnd_1 rnd_2 rnd_4 rnd_8 rnd_16 rnd_32 rnd_64 round_ties_even_def Let_def floor_rat_numeral dgt_def dge_def

lemma resumes_numeral:
  "resumes (numeral k) co =
     (case resume co of Inl e \<Rightarrow> Inl e | Inr co' \<Rightarrow> resumes (pred_numeral k) co')"
  by (simp add: numeral_eq_Suc)

lemma yielded_numeral:
  "yielded (numeral k) co =
     (if suspended_at co = final_suspend then []
      else (case promise co of None \<Rightarrow> [] | Some r \<Rightarrow> [r])
           @ (case resume co of Inl e \<Rightarrow> [] | Inr co' \<Rightarrow> yielded (pred_numeral k) co'))"
  by (simp add: numeral_eq_Suc)

lemma main_loop_numeral:
  "main_loop (numeral k) c =
     (if exited c then Inr c
      else case dispatch c of Inl e \<Rightarrow> Inl e | Inr c' \<Rightarrow> main_loop (pred_numeral k) c')"
  by (simp add: numeral_eq_Suc)

lemmas coroutine_eval = acclimate_def cooling_loop_def heating_loop_def band_check_def resume_def

lemmas main_eval = dispatch_def init_values_def resume_and_adopt_def charging_case_def
  main_entry_def exited_def

lemma lit_94_8_value: "rnd (948 / 10) = Fin (6670956948042547 / 70368744177664)"
  by (simp add: arith_eval)

lemma dlt_18_not_dgt_20: "dlt t lit_18 \<Longrightarrow> \<not> dgt t lit_20"
  by (cases t) (simp_all add: dgt_def lit_20_def lit_18_def)

section \<open>Large magnitudes: the literals are absorbed\<close>

text \<open>
  Around \<open>2\<^sup>6\<^sup>0\<close> neighbouring \<^verbatim>\<open>double\<close>s are 128 or 256 apart, so adding or subtracting
  \<^verbatim>\<open>0.1\<close> or \<^verbatim>\<open>0.8\<close> rounds back to the same number.
\<close>

lemma huge_readings_are_doubles:
  "rnd (2 ^ 60) = Fin (2 ^ 60)" "rnd (- (2 ^ 60)) = Fin (- (2 ^ 60))"
  by (subst rnd_in_binade[where e = 60]; simp add: round_ties_even_def Let_def)+

lemma floor_rat_neg_numeral:
  "\<lfloor>- (numeral a / numeral b) :: rat\<rfloor> = - numeral a div numeral b"
  using floor_divide_of_int_eq[of "- numeral a" "numeral b", where ?'a = rat] by simp

lemma add_0_1_absorbed: "dadd (Fin (- 1152921504606846976)) lit_0_1 = Fin (- 1152921504606846976)"
  unfolding lit_0_1_value dadd.simps
  by (subst rnd_in_binade[where e = 59])
     (simp_all add: round_ties_even_def Let_def floor_rat_neg_numeral)

lemma sub_0_1_absorbed: "dsub (Fin 1152921504606846976) lit_0_1 = Fin 1152921504606846976"
  unfolding lit_0_1_value dsub.simps
  by (subst rnd_in_binade[where e = 59])
     (simp_all add: round_ties_even_def Let_def floor_rat_numeral)

lemma sub_0_8_absorbed: "dsub (Fin 1152921504606846976) lit_0_8 = Fin 1152921504606846976"
  unfolding lit_0_8_value dsub.simps
  by (subst rnd_in_binade[where e = 59])
     (simp_all add: round_ties_even_def Let_def floor_rat_numeral)

lemma dlt_huge_negative: "dlt (Fin (- 1152921504606846976)) lit_94_9"
  by (simp add: lit_94_9_value)

section \<open>The battery charge between 0 and 100\<close>

text \<open>
  Below 128 a rounding moves a number by at most \<open>2\<^sup>-\<^sup>4\<^sup>7\<close>. So \<^verbatim>\<open>batteryCharge + 0.1\<close>
  gains at least 0.09 and \<^verbatim>\<open>batteryCharge - 0.8\<close> loses at least 0.75.
\<close>

lemma rnd_near:
  assumes "\<bar>q\<bar> < 128"
  shows "\<exists>r. rnd q = Fin r \<and> \<bar>r - q\<bar> \<le> 1 / 140737488355328"
proof -
  have "\<exists>r. rnd q = Fin r \<and> \<bar>r - q\<bar> \<le> 2 powi (6 - 53)"
    using assms by (intro rnd_error) simp_all
  then show ?thesis by simp
qed

lemma add_0_1_step:
  assumes "0 \<le> q" "q \<le> 100"
  shows "\<exists>q'. dadd (Fin q) lit_0_1 = Fin q' \<and> q + 9 / 100 \<le> q' \<and> q' \<le> q + 11 / 100"
proof -
  let ?c = "3602879701896397 / 36028797018963968 :: rat"
  have "\<bar>q + ?c\<bar> < 128" using assms by simp
  then obtain r where r: "rnd (q + ?c) = Fin r" "\<bar>r - (q + ?c)\<bar> \<le> 1 / 140737488355328"
    using rnd_near by blast
  have "q + 9 / 100 \<le> r" "r \<le> q + 11 / 100" using r(2) assms by linarith+
  then show ?thesis using r(1) by (simp add: lit_0_1_value)
qed

lemma sub_0_8_step:
  assumes "20 < q" "q \<le> 100"
  shows "\<exists>q'. dsub (Fin q) lit_0_8 = Fin q' \<and> 19 \<le> q' \<and> q' \<le> q - 3 / 4"
proof -
  let ?c = "3602879701896397 / 4503599627370496 :: rat"
  have "\<bar>q - ?c\<bar> < 128" using assms by simp
  then obtain r where r: "rnd (q - ?c) = Fin r" "\<bar>r - (q - ?c)\<bar> \<le> 1 / 140737488355328"
    using rnd_near by blast
  have "19 \<le> r" "r \<le> q - 3 / 4" using r(2) assms by linarith+
  then show ?thesis using r(1) by (simp add: lit_0_8_value)
qed

lemma rnd_not_NaN: "rnd q \<noteq> NaN"
  by (simp add: rnd_def Let_def)

lemma dadd_lit_not_NaN: "t \<noteq> NaN \<Longrightarrow> dadd t lit_0_1 \<noteq> NaN"
  by (cases t) (simp_all add: lit_0_1_value rnd_not_NaN)

lemma dsub_lit_not_NaN: "t \<noteq> NaN \<Longrightarrow> dsub t lit_0_1 \<noteq> NaN"
  by (cases t) (simp_all add: lit_0_1_value rnd_not_NaN)

lemma band_test_holds: "t \<noteq> NaN \<Longrightarrow> dle t lit_20 \<or> dge t lit_18"
  by (cases t) (auto simp add: lit_20_def lit_18_def dge_def)

lemma drain_step:
  assumes "dgt b lit_20" "dle b (Fin 100)" "dle b (Fin (20 + of_nat (Suc k) * (3 / 4)))"
  shows "dle (dsub b lit_0_8) (Fin 100) \<and> dle (dsub b lit_0_8) (Fin (20 + of_nat k * (3 / 4)))"
proof -
  obtain q where q: "b = Fin q" "20 < q" "q \<le> 100" "q \<le> 20 + of_nat (Suc k) * (3 / 4)"
    using assms by (cases b) (simp_all add: dgt_def lit_20_def)
  obtain q' where q': "dsub (Fin q) lit_0_8 = Fin q'" "19 \<le> q'" "q' \<le> q - 3 / 4"
    using sub_0_8_step[OF q(2,3)] by blast
  have "q' \<le> 100" using q'(3) q(3) by simp
  moreover have "q' \<le> 20 + of_nat k * (3 / 4)" using q'(3) q(4) by (simp add: field_simps)
  ultimately show ?thesis using q(1) q'(1) by simp
qed

lemma no_budget_no_step:
  assumes "dle b (Fin (20 + of_nat (0::nat) * (3 / 4)))"
  shows "\<not> dgt b lit_20"
  using assms by (cases b) (simp_all add: dgt_def lit_20_def)

text \<open>
  In that range one step of a loop of \<^verbatim>\<open>acclimate\<close> differs from the exact decimal step by
  at most \<open>2\<^sup>-\<^sup>4\<^sup>6\<close>.
\<close>

lemma steps_are_close:
  assumes "\<bar>x\<bar> \<le> 100"
  shows "\<exists>y. dsub (Fin x) lit_0_1 = Fin y \<and> \<bar>y - (x - 1 / 10)\<bar> \<le> 1 / 2 ^ 46"
    and "\<exists>y. dadd (Fin x) lit_0_1 = Fin y \<and> \<bar>y - (x + 1 / 10)\<bar> \<le> 1 / 2 ^ 46"
    and "\<exists>y. dsub (Fin x) lit_0_8 = Fin y \<and> \<bar>y - (x - 8 / 10)\<bar> \<le> 1 / 2 ^ 46"
proof -
  let ?a = "3602879701896397 / 36028797018963968 :: rat"
  let ?b = "3602879701896397 / 4503599627370496 :: rat"
  have "\<bar>x - ?a\<bar> < 128" using assms by linarith
  then obtain r1 where r1: "rnd (x - ?a) = Fin r1" "\<bar>r1 - (x - ?a)\<bar> \<le> 1 / 140737488355328"
    using rnd_near by blast
  have "\<bar>r1 - (x - 1 / 10)\<bar> \<le> 1 / 70368744177664" using r1(2) by linarith
  then show "\<exists>y. dsub (Fin x) lit_0_1 = Fin y \<and> \<bar>y - (x - 1 / 10)\<bar> \<le> 1 / 2 ^ 46"
    using r1(1) by (simp add: lit_0_1_value)
  have "\<bar>x + ?a\<bar> < 128" using assms by linarith
  then obtain r2 where r2: "rnd (x + ?a) = Fin r2" "\<bar>r2 - (x + ?a)\<bar> \<le> 1 / 140737488355328"
    using rnd_near by blast
  have "\<bar>r2 - (x + 1 / 10)\<bar> \<le> 1 / 70368744177664" using r2(2) by linarith
  then show "\<exists>y. dadd (Fin x) lit_0_1 = Fin y \<and> \<bar>y - (x + 1 / 10)\<bar> \<le> 1 / 2 ^ 46"
    using r2(1) by (simp add: lit_0_1_value)
  have "\<bar>x - ?b\<bar> < 128" using assms by linarith
  then obtain r3 where r3: "rnd (x - ?b) = Fin r3" "\<bar>r3 - (x - ?b)\<bar> \<le> 1 / 140737488355328"
    using rnd_near by blast
  have "\<bar>r3 - (x - 8 / 10)\<bar> \<le> 1 / 70368744177664" using r3(2) by linarith
  then show "\<exists>y. dsub (Fin x) lit_0_8 = Fin y \<and> \<bar>y - (x - 8 / 10)\<bar> \<le> 1 / 2 ^ 46"
    using r3(1) by (simp add: lit_0_8_value)
qed

section \<open>How the coroutines end\<close>

text \<open>
  \<^verbatim>\<open>acclimate\<close>: a frame whose \<^verbatim>\<open>batteryCharge\<close> is at most \<open>min 100 (20 + 3k/4)\<close> reaches
  the final suspend point within \<open>k + 1\<close> resumptions. \<^verbatim>\<open>charger\<close>: from a \<^verbatim>\<open>batteryCharge\<close>
  between 0 and 100 the loop ends, within \<open>k\<close> passes if \<open>95 - batteryCharge \<le> 9k/100\<close>;
  from \<open>- 2\<^sup>6\<^sup>0\<close> it never does.
\<close>

lemma ends_within_final:
  "suspended_at co = final_suspend \<Longrightarrow> (tagged \<longrightarrow> (\<exists>r. promise co = Some r \<and> state r = charging))
     \<Longrightarrow> ends_within n tagged co"
  unfolding ends_within_def by (rule exI[of _ 0]) simp

lemma ends_within_resume:
  "resume co = Inr co1 \<Longrightarrow> ends_within n tagged co1 \<Longrightarrow> ends_within (Suc n) tagged co"
  unfolding ends_within_def
proof -
  assume r: "resume co = Inr co1"
    and "\<exists>j\<le>n. \<exists>co'. resumes j co1 = Inr co' \<and> suspended_at co' = final_suspend
        \<and> (tagged \<longrightarrow> (\<exists>r. promise co' = Some r \<and> state r = charging))"
  then obtain j co' where j: "j \<le> n" "resumes j co1 = Inr co'" "suspended_at co' = final_suspend"
       "tagged \<longrightarrow> (\<exists>r. promise co' = Some r \<and> state r = charging)" by blast
  have "resumes (Suc j) co = Inr co'" using r j(2) by simp
  then show "\<exists>j\<le>Suc n. \<exists>co'. resumes j co = Inr co' \<and> suspended_at co' = final_suspend
        \<and> (tagged \<longrightarrow> (\<exists>r. promise co' = Some r \<and> state r = charging))"
    using j by (intro exI[of _ "Suc j"]) auto
qed

lemma ends_within_mono: "ends_within n tagged co \<Longrightarrow> n \<le> n' \<Longrightarrow> ends_within n' tagged co"
  unfolding ends_within_def by (meson order_trans)

lemma band_check_ends:
  "ends_within 1 (temperature f \<noteq> NaN) (band_check p f)"
proof (cases "dle (temperature f) lit_20 \<or> dge (temperature f) lit_18")
  case True
  let ?co = "band_check p f"
  have 1: "resume ?co = Inr (?co\<lparr>suspended_at := final_suspend\<rparr>)"
    using True by (simp add: band_check_def resume_def Let_def)
  have "ends_within 0 (temperature f \<noteq> NaN) (?co\<lparr>suspended_at := final_suspend\<rparr>)"
    using True by (intro ends_within_final) (simp_all add: band_check_def Let_def)
  then show ?thesis using ends_within_resume[OF 1] by simp
next
  case False
  then have "temperature f = NaN" using band_test_holds by blast
  then have "ends_within 0 (temperature f \<noteq> NaN) (band_check p f)"
    using False by (intro ends_within_final) (simp_all add: band_check_def)
  then show ?thesis by (rule ends_within_mono) simp
qed

lemma heating_loop_ends:
  assumes "dle (batteryCharge f) (Fin 100)" 
    and "dle (batteryCharge f) (Fin (20 + of_nat k * (3 / 4)))"
  shows "ends_within (Suc k) (temperature f \<noteq> NaN) (heating_loop p f)"
  using assms
proof (induction k arbitrary: f p)
  case 0
  then have "\<not> dgt (batteryCharge f) lit_20" using no_budget_no_step by blast
  then have "heating_loop p f = band_check p f" by (simp add: heating_loop_def)
  then show ?case using band_check_ends[of f p] by simp
next
  case (Suc k)
  show ?case
  proof (cases "dlt (temperature f) lit_18 \<and> dgt (batteryCharge f) lit_20")
    case False
    then have "heating_loop p f = band_check p f" by (auto simp add: heating_loop_def)
    then show ?thesis using band_check_ends[of f p] ends_within_mono by fastforce
  next
    case True
    define f' where "f' = f\<lparr>temperature := dadd (temperature f) lit_0_1,
                             batteryCharge := dsub (batteryCharge f) lit_0_8,
                             state := heating\<rparr>"
    have h: "heating_loop p f = \<lparr>suspended_at = heating_yield, frame = f', promise = Some f'\<rparr>"
      using True by (simp add: heating_loop_def f'_def Let_def)
    have r: "resume (heating_loop p f) = Inr (heating_loop (Some f') f')"
      by (simp add: h resume_def)
    have b: "dle (batteryCharge f') (Fin 100) \<and> dle (batteryCharge f') (Fin (20 + of_nat k * (3 / 4)))"
      using drain_step[of "batteryCharge f" k] True Suc.prems by (simp add: f'_def)
    have "ends_within (Suc k) (temperature f' \<noteq> NaN) (heating_loop (Some f') f')"
      using Suc.IH b by blast
    moreover have "temperature f \<noteq> NaN \<Longrightarrow> temperature f' \<noteq> NaN"
      by (simp add: f'_def dadd_lit_not_NaN)
    ultimately have "ends_within (Suc k) (temperature f \<noteq> NaN) (heating_loop (Some f') f')"
      unfolding ends_within_def by blast
    then show ?thesis using ends_within_resume[OF r] by simp
  qed
qed

lemma cooling_loop_ends:
  assumes "dle (batteryCharge f) (Fin 100)" 
    and "dle (batteryCharge f) (Fin (20 + of_nat k * (3 / 4)))"
  shows "ends_within (Suc k) (temperature f \<noteq> NaN) (cooling_loop p f)"
  using assms
proof (induction k arbitrary: f p)
  case 0
  then have "\<not> dgt (batteryCharge f) lit_20" using no_budget_no_step by blast
  then have "cooling_loop p f = heating_loop p f" by (simp add: cooling_loop_def)
  then show ?case using heating_loop_ends[OF 0] by simp
next
  case (Suc k)
  show ?case
  proof (cases "dgt (temperature f) lit_20 \<and> dgt (batteryCharge f) lit_20")
    case False
    then have "cooling_loop p f = heating_loop p f" by (auto simp add: cooling_loop_def)
    then show ?thesis using heating_loop_ends[OF Suc.prems] by simp
  next
    case True
    define f' where "f' = f\<lparr>temperature := dsub (temperature f) lit_0_1,
                             batteryCharge := dsub (batteryCharge f) lit_0_8,
                             state := cooling\<rparr>"
    have h: "cooling_loop p f = \<lparr>suspended_at = cooling_yield, frame = f', promise = Some f'\<rparr>"
      using True by (simp add: cooling_loop_def f'_def Let_def)
    have r: "resume (cooling_loop p f) = Inr (cooling_loop (Some f') f')"
      by (simp add: h resume_def)
    have b: "dle (batteryCharge f') (Fin 100) \<and> dle (batteryCharge f') (Fin (20 + of_nat k * (3 / 4)))"
      using drain_step[of "batteryCharge f" k] True Suc.prems by (simp add: f'_def)
    have "ends_within (Suc k) (temperature f' \<noteq> NaN) (cooling_loop (Some f') f')"
      using Suc.IH b by blast
    moreover have "temperature f \<noteq> NaN \<Longrightarrow> temperature f' \<noteq> NaN"
      by (simp add: f'_def dsub_lit_not_NaN)
    ultimately have "ends_within (Suc k) (temperature f \<noteq> NaN) (cooling_loop (Some f') f')"
      unfolding ends_within_def by blast
    then show ?thesis using ends_within_resume[OF r] by simp
  qed
qed

lemma charge_body_state: "state ((charge_body ^^ j) m) = state m"
  by (induction j) (simp_all add: charge_body_def)

lemma charger_done:
  "\<not> dlt (batteryCharge m) lit_94_9 \<Longrightarrow>
     charger m = Some \<lparr>suspended_at = final_suspend, frame = m, promise = Some m\<rparr>"
  by (subst charger.simps) simp

lemma charger_again:
  "dlt (batteryCharge m) lit_94_9 \<Longrightarrow> charger m = charger (charge_body m)"
  by (subst charger.simps) simp

lemma charger_runs:
  assumes "batteryCharge m = Fin q" "0 \<le> q" "q \<le> 100"
    and "95 - q \<le> of_nat k * (9 / 100)"
  shows "\<exists>j\<le>k. \<exists>q'. 
           charger m = Some \<lparr>suspended_at = final_suspend, frame = (charge_body ^^ j) m,
                              promise = Some ((charge_body ^^ j) m)\<rparr>
         \<and> (\<forall>i<j. dlt (batteryCharge ((charge_body ^^ i) m)) lit_94_9)
         \<and> batteryCharge ((charge_body ^^ j) m) = Fin q'
         \<and> 3338996911230157 / 35184372088832 \<le> q' \<and> q' \<le> 100"
  using assms
proof (induction k arbitrary: m q)
  case 0
  then have "\<not> dlt (batteryCharge m) lit_94_9" by (simp add: lit_94_9_value)
  then have "charger m = Some \<lparr>suspended_at = final_suspend, frame = (charge_body ^^ 0) m,
                              promise = Some ((charge_body ^^ 0) m)\<rparr>"
    using charger_done by simp
  moreover have "batteryCharge ((charge_body ^^ 0) m) = Fin q" using 0 by simp
  moreover have "3338996911230157 / 35184372088832 \<le> q" using 0 by simp
  ultimately show ?case using 0(3) by blast
next
  case (Suc k)
  show ?case
  proof (cases "dlt (batteryCharge m) lit_94_9")
    case False
    then have "charger m = Some \<lparr>suspended_at = final_suspend, frame = (charge_body ^^ 0) m,
                              promise = Some ((charge_body ^^ 0) m)\<rparr>"
      using charger_done by simp
    moreover have "batteryCharge ((charge_body ^^ 0) m) = Fin q" using Suc.prems by simp
    moreover have "3338996911230157 / 35184372088832 \<le> q" 
      using False Suc.prems(1) by (simp add: lit_94_9_value)
    ultimately show ?thesis using Suc.prems(3) by blast
  next
    case True
    then have lt: "q < 3338996911230157 / 35184372088832" 
      using Suc.prems(1) by (simp add: lit_94_9_value)
    obtain q1 where q1: "dadd (Fin q) lit_0_1 = Fin q1" "q + 9 / 100 \<le> q1" "q1 \<le> q + 11 / 100"
      using add_0_1_step[OF Suc.prems(2,3)] by blast
    have b1: "batteryCharge (charge_body m) = Fin q1" 
      using q1(1) Suc.prems(1) by (simp add: charge_body_def)
    have "0 \<le> q1" using q1(2) Suc.prems(2) by simp
    moreover have "q1 \<le> 100" using q1(3) lt by simp
    moreover have "95 - q1 \<le> of_nat k * (9 / 100)" 
      using q1(2) Suc.prems(4) by (simp add: field_simps)
    ultimately obtain j q' where j: "j \<le> k" 
      "charger (charge_body m) = Some \<lparr>suspended_at = final_suspend, 
          frame = (charge_body ^^ j) (charge_body m),
          promise = Some ((charge_body ^^ j) (charge_body m))\<rparr>"
      "\<forall>i<j. dlt (batteryCharge ((charge_body ^^ i) (charge_body m))) lit_94_9"
      "batteryCharge ((charge_body ^^ j) (charge_body m)) = Fin q'"
      "3338996911230157 / 35184372088832 \<le> q'" "q' \<le> 100"
      using Suc.IH[OF b1] by blast
    have sw: "\<And>i. (charge_body ^^ i) (charge_body m) = (charge_body ^^ Suc i) m"
      by (simp add: funpow_swap1)
    have "\<forall>i<Suc j. dlt (batteryCharge ((charge_body ^^ i) m)) lit_94_9"
    proof (intro allI impI)
      fix i assume "i < Suc j"
      show "dlt (batteryCharge ((charge_body ^^ i) m)) lit_94_9"
      proof (cases i)
        case 0 then show ?thesis using True by simp
      next
        case (Suc i')
        then have "i' < j" using \<open>i < Suc j\<close> by simp
        then show ?thesis using j(3) sw Suc by simp
      qed
    qed
    moreover have "charger m = Some \<lparr>suspended_at = final_suspend, 
          frame = (charge_body ^^ Suc j) m, promise = Some ((charge_body ^^ Suc j) m)\<rparr>"
      using charger_again[OF True] j(2) sw by simp
    moreover have "batteryCharge ((charge_body ^^ Suc j) m) = Fin q'" using j(4) sw by simp
    moreover have "Suc j \<le> Suc k" using j(1) by simp
    ultimately show ?thesis using j(5,6) by blast
  qed
qed

lemma charge_body_huge_negative:
  "batteryCharge m = Fin (- 1152921504606846976) \<Longrightarrow> batteryCharge (charge_body m) = Fin (- 1152921504606846976)"
  by (simp add: charge_body_def add_0_1_absorbed)

lemma charger_stuck:
  assumes "charger m = Some y"
  shows "batteryCharge m \<noteq> Fin (- 1152921504606846976)"
proof (rule charger.raw_induct
         [where P = "\<lambda>x y. batteryCharge x \<noteq> Fin (- 1152921504606846976)" and info = m and y = y])
  fix f x z
  assume IH: "\<And>x y. f x = Some y \<Longrightarrow> batteryCharge x \<noteq> Fin (- 1152921504606846976)"
    and eq: "(if dlt (batteryCharge x) lit_94_9 then f (charge_body x)
              else Some \<lparr>suspended_at = final_suspend, frame = x, promise = Some x\<rparr>)
             = Some z"
  show "batteryCharge x \<noteq> Fin (- 1152921504606846976)"
  proof
    assume b: "batteryCharge x = Fin (- 1152921504606846976)"
    have "f (charge_body x) = Some z" 
      using eq b dlt_huge_negative by simp
    then have "batteryCharge (charge_body x) \<noteq> Fin (- 1152921504606846976)" by (rule IH)
    then show False using charge_body_huge_negative[OF b] by simp
  qed
next
  show "charger m = Some y" by fact
qed

section \<open>The invariant of the loop of \<^verbatim>\<open>main\<close>\<close>

text \<open>
  \<open>loop_inv\<close> holds at the entry of \<^verbatim>\<open>main\<close>, and an iteration that starts with it
  completes and ends with it.
\<close>

lemma in_domain_cases: "in_domain b \<Longrightarrow> \<exists>q. b = Fin q \<and> 0 \<le> q \<and> q \<le> 100"
  by (cases b) simp_all

lemma drain_in_domain:
  assumes "in_domain b" "dgt b lit_20"
  shows "in_domain (dsub b lit_0_8)"
proof -
  obtain q where q: "b = Fin q" "0 \<le> q" "q \<le> 100" using in_domain_cases[OF assms(1)] by blast
  have "20 < q" using assms(2) q(1) by (simp add: dgt_def lit_20_def)
  then obtain q' where "dsub (Fin q) lit_0_8 = Fin q'" "19 \<le> q'" "q' \<le> q - 3 / 4"
    using sub_0_8_step q(3) by blast
  then show ?thesis using q by simp
qed

lemma dgt_20_not_NaN: "dgt t lit_20 \<Longrightarrow> t \<noteq> NaN"
  by (cases t) (simp_all add: dgt_def lit_20_def)

lemma dlt_18_not_NaN: "dlt t lit_18 \<Longrightarrow> t \<noteq> NaN"
  by (cases t) (simp_all add: lit_18_def)

lemma band_check_good:
  assumes "in_domain (batteryCharge f)" "temperature f \<noteq> NaN"
  shows "good_suspension (band_check p f)"
  using assms band_test_holds[OF assms(2)]
  by (auto simp add: good_suspension_def band_check_def Let_def)

lemma heating_loop_good:
  assumes "in_domain (batteryCharge f)" "temperature f \<noteq> NaN"
  shows "good_suspension (heating_loop p f)"
proof (cases "dlt (temperature f) lit_18 \<and> dgt (batteryCharge f) lit_20")
  case True
  then have "live_handle (heating_loop p f)"
    using assms drain_in_domain dadd_lit_not_NaN
    by (simp add: heating_loop_def live_handle_def Let_def)
  then show ?thesis by (simp add: good_suspension_def)
next
  case False
  then have "heating_loop p f = band_check p f" by (auto simp add: heating_loop_def)
  then show ?thesis using band_check_good[OF assms] by simp
qed

lemma cooling_loop_good:
  assumes "in_domain (batteryCharge f)" "temperature f \<noteq> NaN"
  shows "good_suspension (cooling_loop p f)"
proof (cases "dgt (temperature f) lit_20 \<and> dgt (batteryCharge f) lit_20")
  case True
  then have "live_handle (cooling_loop p f)"
    using assms drain_in_domain dsub_lit_not_NaN
    by (simp add: cooling_loop_def live_handle_def Let_def)
  then show ?thesis by (simp add: good_suspension_def)
next
  case False
  then have "cooling_loop p f = heating_loop p f" by (auto simp add: cooling_loop_def)
  then show ?thesis using heating_loop_good[OF assms] by simp
qed

lemma resume_live:
  assumes "live_handle h"
  shows "\<exists>x. resume h = Inr x \<and> good_suspension x"
  using assms cooling_loop_good heating_loop_good
  by (auto simp add: live_handle_def resume_def)

lemma adopt_good:
  assumes "good_suspension x"
  shows "\<exists>r. promise x = Some r \<and> loop_inv (c\<lparr>info := r, handle := Some x\<rparr>)"
  using assms
  by (auto simp add: good_suspension_def live_handle_def loop_inv_def)

lemma resume_and_adopt_inv:
  assumes "handle c = Some h" "live_handle h"
  shows "\<exists>c'. resume_and_adopt c = Inr c' \<and> loop_inv c'"
proof -
  obtain x where x: "resume h = Inr x" "good_suspension x" using resume_live[OF assms(2)] by blast
  obtain r where r: "promise x = Some r" "loop_inv (c\<lparr>info := r, handle := Some x\<rparr>)"
    using adopt_good[OF x(2)] by blast
  show ?thesis using assms(1) x(1) r by (simp add: resume_and_adopt_def)
qed

lemma acclimate_cooling_live:
  assumes "in_domain (batteryCharge m)" "dgt (batteryCharge m) lit_20" "dgt (temperature m) lit_20"
  shows "live_handle (acclimate m)"
  using assms drain_in_domain dsub_lit_not_NaN dgt_20_not_NaN
  by (simp add: acclimate_def cooling_loop_def live_handle_def Let_def)

lemma acclimate_heating_live:
  assumes "in_domain (batteryCharge m)" "dgt (batteryCharge m) lit_20" "dlt (temperature m) lit_18"
  shows "live_handle (acclimate m) \<and> suspended_at (acclimate m) = heating_yield"
  using assms drain_in_domain dadd_lit_not_NaN dlt_18_not_NaN dlt_18_not_dgt_20
  by (simp add: acclimate_def cooling_loop_def heating_loop_def live_handle_def Let_def)

lemma start_case_inv:
  assumes "state (info c) = start"
  shows "\<exists>c'. dispatch c = Inr c' \<and> loop_inv c'"
proof -
  define i where "i = fst (init_values (rand_state c) (info c))"
  define c' where "c' = c\<lparr>info := i, handle := Some (acclimate i), 
                           rand_state := snd (init_values (rand_state c) (info c))\<rparr>"
  have d: "dispatch c = Inr c'" 
    using assms by (simp add: dispatch_def c'_def i_def split_beta)
  have b: "in_domain (batteryCharge i)" 
    by (simp add: i_def init_values_def Let_def)
  have s: "state i \<noteq> standby" "state i \<noteq> start"
    by (simp_all add: i_def init_values_def Let_def)
  have cool: "state i = cooling \<Longrightarrow> dgt (temperature i) lit_20 \<and> dgt (batteryCharge i) lit_20"
    by (auto simp add: i_def init_values_def Let_def split: if_splits)
  have heat: "state i = heating \<Longrightarrow> dlt (temperature i) lit_18 \<and> dgt (batteryCharge i) lit_20"
    by (auto simp add: i_def init_values_def Let_def split: if_splits)
  have "state i = cooling \<or> state i = heating \<Longrightarrow> live_handle (acclimate i)"
    using cool heat b acclimate_cooling_live acclimate_heating_live by blast
  then have "loop_inv c'" using b s by (simp add: loop_inv_def c'_def)
  then show ?thesis using d by blast
qed

lemma charging_case_inv:
  assumes "in_domain (batteryCharge (info c))"
  shows "\<exists>c'. charging_case c = Inr c' \<and> loop_inv c'"
proof -
  obtain q where q: "batteryCharge (info c) = Fin q" "0 \<le> q" "q \<le> 100"
    using in_domain_cases[OF assms] by blast
  have "95 - q \<le> of_nat 1056 * (9 / 100)" using q(2) by simp
  then obtain j q' where r:
      "charger (info c) = Some \<lparr>suspended_at = final_suspend, frame = (charge_body ^^ j) (info c),
                              promise = Some ((charge_body ^^ j) (info c))\<rparr>"
      "batteryCharge ((charge_body ^^ j) (info c)) = Fin q'"
      "3338996911230157 / 35184372088832 \<le> q'" "q' \<le> 100"
    using charger_runs[OF q] by blast
  define i where "i = (charge_body ^^ j) (info c)"
  have b: "in_domain (batteryCharge i)" "dgt (batteryCharge i) lit_20"
    using r(2,3,4) by (simp_all add: i_def dgt_def lit_20_def)
  show ?thesis
  proof (cases "dlt (temperature i) lit_18")
    case True
    then have l: "live_handle (acclimate i)" using acclimate_heating_live b by blast
    then obtain f where f: "promise (acclimate i) = Some f" "frame (acclimate i) = f"
      by (simp add: live_handle_def)
    have "loop_inv (c\<lparr>info := f\<lparr>state := heating\<rparr>, handle := Some (acclimate i)\<rparr>)"
      using l by (simp add: loop_inv_def)
    then show ?thesis using r(1) True f by (simp add: charging_case_def i_def)
  next
    case False
    show ?thesis
    proof (cases "dgt (temperature i) lit_20")
      case True
      then have l: "live_handle (acclimate i)" using acclimate_cooling_live b by blast
      have "loop_inv (c\<lparr>info := i\<lparr>state := cooling\<rparr>, handle := Some (acclimate i)\<rparr>)"
        using l by (simp add: loop_inv_def)
      then show ?thesis using r(1) True False by (simp add: charging_case_def i_def)
    next
      case F2: False
      have "loop_inv (c\<lparr>info := i\<lparr>state := finish\<rparr>\<rparr>)"
        by (simp add: loop_inv_def)
      then show ?thesis using r(1) F2 False by (simp add: charging_case_def i_def)
    qed
  qed
qed

lemma dispatch_inv:
  assumes "loop_inv c"
  shows "\<exists>c'. dispatch c = Inr c' \<and> loop_inv c'"
proof (cases "state (info c)")
  case start
  then show ?thesis using start_case_inv by blast
next
  case cooling
  then obtain h where "handle c = Some h" "live_handle h" using assms by (auto simp add: loop_inv_def)
  then show ?thesis using resume_and_adopt_inv cooling by (simp add: dispatch_def)
next
  case heating
  then obtain h where "handle c = Some h" "live_handle h" using assms by (auto simp add: loop_inv_def)
  then show ?thesis using resume_and_adopt_inv heating by (simp add: dispatch_def)
next
  case charging
  then have "in_domain (batteryCharge (info c))" using assms by (simp add: loop_inv_def)
  then show ?thesis using charging_case_inv charging by (simp add: dispatch_def)
next
  case finish
  then show ?thesis by (simp add: dispatch_def loop_inv_def)
next
  case standby
  then show ?thesis using assms by (simp add: loop_inv_def)
qed

lemma main_loop_inv:
  assumes "loop_inv c"
  shows "\<exists>c'. main_loop n c = Inr c' \<and> loop_inv c'"
  using assms
proof (induction n arbitrary: c)
  case 0
  then show ?case by simp
next
  case (Suc n)
  obtain c1 where c1: "dispatch c = Inr c1" "loop_inv c1" using dispatch_inv[OF Suc.prems] by blast
  have "\<not> exited c" using Suc.prems by (simp add: loop_inv_def exited_def)
  then show ?case using c1 Suc.IH by simp
qed

lemma huge_reading_repeats:
  "resumes n (suspended cooling_yield (reading 1152921504606846976 1152921504606846976 cooling))
   = Inr (suspended cooling_yield (reading 1152921504606846976 1152921504606846976 cooling))"
  by (induction n)
     (simp_all add: resume_def cooling_loop_def sub_0_1_absorbed sub_0_8_absorbed
        dgt_def lit_20_def Let_def)

lemma acclimate_huge_reading:
  "acclimate (reading 1152921504606846976 1152921504606846976 start)
   = (suspended cooling_yield (reading 1152921504606846976 1152921504606846976 cooling))"
  by (simp add: acclimate_def cooling_loop_def sub_0_1_absorbed sub_0_8_absorbed
        dgt_def lit_20_def Let_def)

section \<open>The acclimation coroutine\<close>

text \<open>One pass through a loop of \<^verbatim>\<open>acclimate\<close>, and how far it is from the decimal step.\<close>

lemma acclimate_step_fields:
  assumes "dgt (batteryCharge m) lit_20"
  shows "(dgt (temperature m) lit_20 \<longrightarrow>
            suspended_at (acclimate m) = cooling_yield
          \<and> promise (acclimate m)
              = Some (m\<lparr>temperature := dsub (temperature m) lit_0_1,
                        batteryCharge := dsub (batteryCharge m) lit_0_8, state := cooling\<rparr>)
          \<and> resume \<lparr>suspended_at = cooling_yield, frame = m, promise = p\<rparr>
              = Inr (acclimate m))
       \<and> (dlt (temperature m) lit_18 \<longrightarrow>
            suspended_at (acclimate m) = heating_yield
          \<and> promise (acclimate m)
              = Some (m\<lparr>temperature := dadd (temperature m) lit_0_1,
                        batteryCharge := dsub (batteryCharge m) lit_0_8, state := heating\<rparr>)
          \<and> resume \<lparr>suspended_at = heating_yield, frame = m, promise = p\<rparr>
              = Inr (acclimate m))"
  using assms
  by (auto simp add: acclimate_def cooling_loop_def heating_loop_def resume_def Let_def
        dest: dlt_18_not_dgt_20)

lemma cooling_step_close:
  assumes "temperature m = Fin x" "batteryCharge m = Fin y" "20 < x" "x \<le> 100" "20 < y" "y \<le> 100"
  shows "\<exists>x' y'. m\<lparr>temperature := dsub (temperature m) lit_0_1,
                    batteryCharge := dsub (batteryCharge m) lit_0_8, state := cooling\<rparr>
               = m\<lparr>temperature := Fin x', batteryCharge := Fin y', state := cooling\<rparr>
           \<and> \<bar>x' - (x - 1 / 10)\<bar> \<le> 1 / 2 ^ 46 \<and> \<bar>y' - (y - 8 / 10)\<bar> \<le> 1 / 2 ^ 46"
proof -
  have "\<bar>x\<bar> \<le> 100" "\<bar>y\<bar> \<le> 100" using assms by simp_all
  then obtain x' y' where
      "dsub (Fin x) lit_0_1 = Fin x'" "\<bar>x' - (x - 1 / 10)\<bar> \<le> 1 / 2 ^ 46"
      "dsub (Fin y) lit_0_8 = Fin y'" "\<bar>y' - (y - 8 / 10)\<bar> \<le> 1 / 2 ^ 46"
    using steps_are_close(1)[of x] steps_are_close(3)[of y] by blast
  then show ?thesis using assms(1,2) by auto
qed

lemma heating_step_close:
  assumes "temperature m = Fin x" "batteryCharge m = Fin y" "- 100 \<le> x" "x < 18" "20 < y" "y \<le> 100"
  shows "\<exists>x' y'. m\<lparr>temperature := dadd (temperature m) lit_0_1,
                    batteryCharge := dsub (batteryCharge m) lit_0_8, state := heating\<rparr>
               = m\<lparr>temperature := Fin x', batteryCharge := Fin y', state := heating\<rparr>
           \<and> \<bar>x' - (x + 1 / 10)\<bar> \<le> 1 / 2 ^ 46 \<and> \<bar>y' - (y - 8 / 10)\<bar> \<le> 1 / 2 ^ 46"
proof -
  have "\<bar>x\<bar> \<le> 100" "\<bar>y\<bar> \<le> 100" using assms by simp_all
  then obtain x' y' where
      "dadd (Fin x) lit_0_1 = Fin x'" "\<bar>x' - (x + 1 / 10)\<bar> \<le> 1 / 2 ^ 46"
      "dsub (Fin y) lit_0_8 = Fin y'" "\<bar>y' - (y - 8 / 10)\<bar> \<le> 1 / 2 ^ 46"
    using steps_are_close(2)[of x] steps_are_close(3)[of y] by blast
  then show ?thesis using assms(1,2) by auto
qed

text \<open>
  C4, as the code has it. Called with a reading whose \<^verbatim>\<open>batteryCharge\<close> is above 20,
  \<^verbatim>\<open>acclimate\<close> runs to its first \<^verbatim>\<open>co_yield\<close>. When \<^verbatim>\<open>temperature\<close> is above 20 the reading
  it yields has the \<^verbatim>\<open>double\<close>s \<^verbatim>\<open>temperature - 0.1\<close> and \<^verbatim>\<open>batteryCharge - 0.8\<close> and
  \<^verbatim>\<open>state = cooling\<close>; when \<^verbatim>\<open>temperature\<close> is below 18 it has the \<^verbatim>\<open>double\<close>s
  \<^verbatim>\<open>temperature + 0.1\<close> and \<^verbatim>\<open>batteryCharge - 0.8\<close> and \<^verbatim>\<open>state = heating\<close>. A resumption of
  a coroutine that waits in the matching loop with such a reading in its frame yields the
  same. Each of these \<^verbatim>\<open>double\<close>s is one operation on the literal, rounded once: while
  \<^verbatim>\<open>temperature\<close> and \<^verbatim>\<open>batteryCharge\<close> are at most 100 in magnitude it is within
  \<open>2\<^sup>-\<^sup>4\<^sup>6\<close> of the value that is 0.1 or 0.8 lower, or 0.1 higher.
\<close>

theorem acclimate_first_step_rounded:
  assumes "dgt (batteryCharge m) lit_20"
  shows "(dgt (temperature m) lit_20 \<longrightarrow>
            suspended_at (acclimate m) = cooling_yield
          \<and> promise (acclimate m)
              = Some (m\<lparr>temperature := dsub (temperature m) lit_0_1,
                        batteryCharge := dsub (batteryCharge m) lit_0_8, state := cooling\<rparr>)
          \<and> resume \<lparr>suspended_at = cooling_yield, frame = m, promise = p\<rparr>
              = Inr (acclimate m)
          \<and> (\<forall>x y. temperature m = Fin x \<and> batteryCharge m = Fin y \<and> x \<le> 100 \<and> y \<le> 100 \<longrightarrow>
                (\<exists>x' y'. promise (acclimate m)
                     = Some (m\<lparr>temperature := Fin x', batteryCharge := Fin y', state := cooling\<rparr>)
                   \<and> \<bar>x' - (x - 1 / 10)\<bar> \<le> 1 / 2 ^ 46
                   \<and> \<bar>y' - (y - 8 / 10)\<bar> \<le> 1 / 2 ^ 46)))
       \<and> (dlt (temperature m) lit_18 \<longrightarrow>
            suspended_at (acclimate m) = heating_yield
          \<and> promise (acclimate m)
              = Some (m\<lparr>temperature := dadd (temperature m) lit_0_1,
                        batteryCharge := dsub (batteryCharge m) lit_0_8, state := heating\<rparr>)
          \<and> resume \<lparr>suspended_at = heating_yield, frame = m, promise = p\<rparr>
              = Inr (acclimate m)
          \<and> (\<forall>x y. temperature m = Fin x \<and> batteryCharge m = Fin y \<and> - 100 \<le> x \<and> y \<le> 100 \<longrightarrow>
                (\<exists>x' y'. promise (acclimate m)
                     = Some (m\<lparr>temperature := Fin x', batteryCharge := Fin y', state := heating\<rparr>)
                   \<and> \<bar>x' - (x + 1 / 10)\<bar> \<le> 1 / 2 ^ 46
                   \<and> \<bar>y' - (y - 8 / 10)\<bar> \<le> 1 / 2 ^ 46)))"
proof (intro conjI impI allI)
  assume "dgt (temperature m) lit_20"
  then show "suspended_at (acclimate m) = cooling_yield"
    and "promise (acclimate m)
              = Some (m\<lparr>temperature := dsub (temperature m) lit_0_1,
                        batteryCharge := dsub (batteryCharge m) lit_0_8, state := cooling\<rparr>)"
    and "resume \<lparr>suspended_at = cooling_yield, frame = m, promise = p\<rparr> = Inr (acclimate m)"
    using acclimate_step_fields[OF assms, of p] by simp_all
next
  fix x y
  assume t: "dgt (temperature m) lit_20"
    and h: "temperature m = Fin x \<and> batteryCharge m = Fin y \<and> x \<le> 100 \<and> y \<le> 100"
  have "20 < x" "20 < y" using t assms h by (simp_all add: dgt_def lit_20_def)
  then obtain x' y' where
      "m\<lparr>temperature := dsub (temperature m) lit_0_1,
         batteryCharge := dsub (batteryCharge m) lit_0_8, state := cooling\<rparr>
       = m\<lparr>temperature := Fin x', batteryCharge := Fin y', state := cooling\<rparr>"
      "\<bar>x' - (x - 1 / 10)\<bar> \<le> 1 / 2 ^ 46" "\<bar>y' - (y - 8 / 10)\<bar> \<le> 1 / 2 ^ 46"
    using cooling_step_close[of m x y] h by blast
  then show "\<exists>x' y'. promise (acclimate m)
                     = Some (m\<lparr>temperature := Fin x', batteryCharge := Fin y', state := cooling\<rparr>)
                   \<and> \<bar>x' - (x - 1 / 10)\<bar> \<le> 1 / 2 ^ 46
                   \<and> \<bar>y' - (y - 8 / 10)\<bar> \<le> 1 / 2 ^ 46"
    using acclimate_step_fields[OF assms, of p] t by auto
next
  assume "dlt (temperature m) lit_18"
  then show "suspended_at (acclimate m) = heating_yield"
    and "promise (acclimate m)
              = Some (m\<lparr>temperature := dadd (temperature m) lit_0_1,
                        batteryCharge := dsub (batteryCharge m) lit_0_8, state := heating\<rparr>)"
    and "resume \<lparr>suspended_at = heating_yield, frame = m, promise = p\<rparr> = Inr (acclimate m)"
    using acclimate_step_fields[OF assms, of p] by simp_all
next
  fix x y
  assume t: "dlt (temperature m) lit_18"
    and h: "temperature m = Fin x \<and> batteryCharge m = Fin y \<and> - 100 \<le> x \<and> y \<le> 100"
  have "x < 18" "20 < y" using t assms h by (simp_all add: dgt_def lit_20_def lit_18_def)
  then obtain x' y' where
      "m\<lparr>temperature := dadd (temperature m) lit_0_1,
         batteryCharge := dsub (batteryCharge m) lit_0_8, state := heating\<rparr>
       = m\<lparr>temperature := Fin x', batteryCharge := Fin y', state := heating\<rparr>"
      "\<bar>x' - (x + 1 / 10)\<bar> \<le> 1 / 2 ^ 46" "\<bar>y' - (y - 8 / 10)\<bar> \<le> 1 / 2 ^ 46"
    using heating_step_close[of m x y] h by blast
  then show "\<exists>x' y'. promise (acclimate m)
                     = Some (m\<lparr>temperature := Fin x', batteryCharge := Fin y', state := heating\<rparr>)
                   \<and> \<bar>x' - (x + 1 / 10)\<bar> \<le> 1 / 2 ^ 46
                   \<and> \<bar>y' - (y - 8 / 10)\<bar> \<le> 1 / 2 ^ 46"
    using acclimate_step_fields[OF assms, of p] t by auto
qed

theorem acclimate_first_step_rounded_witness:
  "dgt (Fin 50) lit_20 \<and> dgt (Fin 25) lit_20 \<and> dlt (Fin 15) lit_18
   \<and> acclimate (reading 25 50 start)
       = (suspended cooling_yield
           (reading (3504363460047667 / 140737488355328) (3462142213541069 / 70368744177664) cooling))
   \<and> \<bar>3504363460047667 / 140737488355328 - (25 - 1 / 10 :: rat)\<bar> \<le> 1 / 2 ^ 46
   \<and> \<bar>3462142213541069 / 70368744177664 - (50 - 8 / 10 :: rat)\<bar> \<le> 1 / 2 ^ 46
   \<and> acclimate (reading 15 50 start)
       = (suspended heating_yield
           (reading (8500544296661811 / 562949953421312) (3462142213541069 / 70368744177664) heating))
   \<and> \<bar>8500544296661811 / 562949953421312 - (15 + 1 / 10 :: rat)\<bar> \<le> 1 / 2 ^ 46"
  using acclimate_first_step_rounded
          [of "(reading 25 50 start)"]
        acclimate_first_step_rounded
          [of "(reading 15 50 start)"]
  by (simp add: coroutine_eval arith_eval)

text \<open>
  C4 as the specification states it has the yielded \<^verbatim>\<open>temperature\<close> exactly 0.1 lower and
  the \<^verbatim>\<open>batteryCharge\<close> exactly 0.8 lower for every reading with both above 20. From
  (25, 50) the yielded reading is (24.899999999999998578\<dots>, 49.200000000000002842\<dots>):
  neither difference is the decimal step. From \<open>(2\<^sup>6\<^sup>0, 2\<^sup>6\<^sup>0)\<close> the yielded reading has the
  same \<^verbatim>\<open>temperature\<close> and \<^verbatim>\<open>batteryCharge\<close> as the one given.
\<close>

theorem acclimate_step_not_exactly_lower:
  "dgt (Fin 50) lit_20 \<and> dgt (Fin 25) lit_20
   \<and> promise (acclimate (reading 25 50 start))
       = Some (reading (3504363460047667 / 140737488355328)
                 (3462142213541069 / 70368744177664) cooling)
   \<and> (25 :: rat) - 3504363460047667 / 140737488355328 \<noteq> 1 / 10
   \<and> (50 :: rat) - 3462142213541069 / 70368744177664 \<noteq> 8 / 10
   \<and> dgt (Fin (2 ^ 60)) lit_20
   \<and> promise (acclimate (reading (2 ^ 60) (2 ^ 60) start))
       = Some (reading (2 ^ 60) (2 ^ 60) cooling)"
proof -
  have "promise (acclimate (reading 25 50 start))
       = Some (reading (3504363460047667 / 140737488355328)
                 (3462142213541069 / 70368744177664) cooling)"
    by (simp add: coroutine_eval arith_eval)
  moreover have "promise (acclimate (reading (2 ^ 60) (2 ^ 60) start))
       = Some (reading (2 ^ 60) (2 ^ 60) cooling)"
    using acclimate_huge_reading by simp
  moreover have "dgt (Fin 50) lit_20 \<and> dgt (Fin 25) lit_20 \<and> dgt (Fin (2 ^ 60)) lit_20"
    by (simp add: dgt_def lit_20_def)
  moreover have "(25 :: rat) - 3504363460047667 / 140737488355328 \<noteq> 1 / 10
     \<and> (50 :: rat) - 3462142213541069 / 70368744177664 \<noteq> 8 / 10"
    by simp
  ultimately show ?thesis by blast
qed

text \<open>
  C8, as the code has it. \<^verbatim>\<open>init_values\<close> classifies the reading (25, 50) as \<^verbatim>\<open>cooling\<close>.
  \<^verbatim>\<open>acclimate\<close> then yields 38 readings with \<^verbatim>\<open>state = cooling\<close>, which is
  \<open>min \<lceil>(25 - 20) / 0.1\<rceil> \<lceil>(50 - 20) / 0.8\<rceil>\<close>: the first loop runs while \<^verbatim>\<open>batteryCharge\<close> is
  above 20, and the reading after 37 steps still has 20.4. The 38th has \<^verbatim>\<open>temperature\<close>
  about 21.2 and \<^verbatim>\<open>batteryCharge\<close> about 19.6; the 39th and last has \<^verbatim>\<open>state = charging\<close>,
  and the resumption after it ends the coroutine.
\<close>

theorem scenario_25_50_cools_38_steps:
  "fst (init_values (\<lambda>n. if n = 0 then 25 else 50) p)
     = p\<lparr>temperature := Fin 25, batteryCharge := Fin 50, state := cooling\<rparr>
   \<and> nat (min \<lceil>(25 - 20) / (1 / 10 :: rat)\<rceil> \<lceil>(50 - 20) / (8 / 10 :: rat)\<rceil>) = 38
   \<and> map state (yielded 50 (acclimate (reading 25 50 cooling))) = replicate 38 cooling @ [charging]
   \<and> resumes 37 (acclimate (reading 25 50 cooling))
       = Inr (suspended cooling_yield
           (reading (1491817376566473 / 70368744177664) (689613692941109 / 35184372088832) cooling))
   \<and> resumes 38 (acclimate (reading 25 50 cooling))
       = Inr (suspended band_yield
           (reading (1491817376566473 / 70368744177664) (689613692941109 / 35184372088832) charging))
   \<and> resumes 39 (acclimate (reading 25 50 cooling))
       = Inr (suspended final_suspend
           (reading (1491817376566473 / 70368744177664) (689613692941109 / 35184372088832) charging))"
proof -
  have "map state (yielded 50 (acclimate (reading 25 50 cooling))) = replicate 38 cooling @ [charging]"
    by (simp add: yielded_numeral coroutine_eval arith_eval numeral_eq_Suc)
  moreover have "resumes 37 (acclimate (reading 25 50 cooling))
       = Inr (suspended cooling_yield
           (reading (1491817376566473 / 70368744177664) (689613692941109 / 35184372088832) cooling))"
    by (simp add: resumes_numeral coroutine_eval arith_eval)
  moreover have "resumes 38 (acclimate (reading 25 50 cooling))
       = Inr (suspended band_yield
           (reading (1491817376566473 / 70368744177664) (689613692941109 / 35184372088832) charging))"
    by (simp add: resumes_numeral coroutine_eval arith_eval)
  moreover have "resumes 39 (acclimate (reading 25 50 cooling))
       = Inr (suspended final_suspend
           (reading (1491817376566473 / 70368744177664) (689613692941109 / 35184372088832) charging))"
    by (simp add: resumes_numeral coroutine_eval arith_eval)
  moreover have "nat (min \<lceil>(25 - 20) / (1 / 10 :: rat)\<rceil> \<lceil>(50 - 20) / (8 / 10 :: rat)\<rceil>) = 38"
  proof -
    have "(75 / 2 :: rat) = of_int 37 + 1 / 2" by simp
    then have "\<lceil>75 / 2 :: rat\<rceil> = 38" by (simp only: ceiling_add_of_int) (simp add: ceiling_eq_iff)
    then show ?thesis by simp
  qed
  moreover have "fst (init_values (\<lambda>n. if n = 0 then 25 else 50) p)
     = p\<lparr>temperature := Fin 25, batteryCharge := Fin 50, state := cooling\<rparr>"
    by (simp add: init_values_def arith_eval)
  ultimately show ?thesis by blast
qed

text \<open>
  C8 as the specification states it has \<open>min \<lceil>(25 - 20) / 0.1\<rceil> \<lfloor>(50 - 20) / 0.8\<rfloor> = 37\<close>
  cooling steps and the step after them yielding \<^verbatim>\<open>charging\<close>. After 37 resumptions the
  coroutine holds its 38th reading, and that one is another cooling step.
\<close>

theorem scenario_25_50_step_38_is_cooling:
  "nat (min \<lceil>(25 - 20) / (1 / 10 :: rat)\<rceil> \<lfloor>(50 - 20) / (8 / 10 :: rat)\<rfloor>) = 37
   \<and> resumes 37 (acclimate (reading 25 50 cooling))
       = Inr (suspended cooling_yield
           (reading (1491817376566473 / 70368744177664) (689613692941109 / 35184372088832) cooling))"
proof -
  have "resumes 37 (acclimate (reading 25 50 cooling))
       = Inr (suspended cooling_yield
           (reading (1491817376566473 / 70368744177664) (689613692941109 / 35184372088832) cooling))"
    by (simp add: resumes_numeral coroutine_eval arith_eval)
  moreover have "nat (min \<lceil>(25 - 20) / (1 / 10 :: rat)\<rceil> \<lfloor>(50 - 20) / (8 / 10 :: rat)\<rfloor>) = 37"
    by (simp add: floor_rat_numeral)
  ultimately show ?thesis by blast
qed

text \<open>
  C9. Called with a reading whose \<^verbatim>\<open>batteryCharge\<close> is at most 20, \<^verbatim>\<open>acclimate\<close> yields one
  reading, the one it was given with \<^verbatim>\<open>state\<close> set to \<^verbatim>\<open>charging\<close> (line 59), and the next
  resumption takes it to the final suspend point without another yield: the promise still
  holds that reading.
\<close>

theorem low_battery_single_yield:
  assumes "dle (batteryCharge m) lit_20"
  shows "suspended_at (acclimate m) = low_yield
       \<and> promise (acclimate m) = Some (m\<lparr>state := charging\<rparr>)
       \<and> resume (acclimate m) = Inr ((acclimate m)\<lparr>suspended_at := final_suspend\<rparr>)
       \<and> yielded (Suc (Suc n)) (acclimate m) = [m\<lparr>state := charging\<rparr>]"
proof -
  have "\<not> dgt (batteryCharge m) lit_20"
    using assms by (cases "batteryCharge m") (simp_all add: dgt_def lit_20_def)
  then show ?thesis by (simp add: acclimate_def resume_def Let_def)
qed

theorem low_battery_single_yield_witness:
  "dle (batteryCharge (reading 15 10 start)) lit_20
   \<and> yielded 2 (acclimate (reading 15 10 start))
       = [(reading 15 10 charging)]"
  using low_battery_single_yield
          [of "(reading 15 10 start)" 0]
  by (simp add: lit_20_def numeral_2_eq_2)

text \<open>
  C5, as the code has it. Called with a reading whose \<^verbatim>\<open>batteryCharge\<close> is at most 100,
  \<^verbatim>\<open>acclimate\<close> reaches its final suspend point within 108 resumptions, whatever the
  \<^verbatim>\<open>temperature\<close>: every pass through a loop takes at least 0.75 from \<^verbatim>\<open>batteryCharge\<close>.
  Unless \<^verbatim>\<open>temperature\<close> is NaN, the last reading in the promise has \<^verbatim>\<open>state = charging\<close>.
\<close>

theorem acclimate_ends_in_domain:
  assumes "dle (batteryCharge m) (Fin 100)"
  shows "\<exists>n\<le>108. \<exists>co'. resumes n (acclimate m) = Inr co' \<and> suspended_at co' = final_suspend
           \<and> (temperature m \<noteq> NaN \<longrightarrow> (\<exists>r. promise co' = Some r \<and> state r = charging))"
proof (cases "dgt (batteryCharge m) lit_20")
  case True
  have "dle (batteryCharge m) (Fin (20 + of_nat (107::nat) * (3 / 4)))"
    using assms by (cases "batteryCharge m") simp_all
  then have "ends_within (Suc 107) (temperature m \<noteq> NaN) (cooling_loop None m)"
    using assms by (intro cooling_loop_ends)
  then show ?thesis using True by (simp add: acclimate_def ends_within_def)
next
  case False
  let ?co = "acclimate m"
  have 1: "resume ?co = Inr (?co\<lparr>suspended_at := final_suspend\<rparr>)"
    using False by (simp add: acclimate_def resume_def Let_def)
  have "ends_within 0 (temperature m \<noteq> NaN) (?co\<lparr>suspended_at := final_suspend\<rparr>)"
    using False by (intro ends_within_final) (simp_all add: acclimate_def Let_def)
  then have "ends_within 108 (temperature m \<noteq> NaN) ?co" 
    using ends_within_resume[OF 1] ends_within_mono by fastforce
  then show ?thesis by (simp add: ends_within_def)
qed

theorem acclimate_ends_in_domain_witness:
  "dle (batteryCharge (reading 25 50 cooling)) (Fin 100)
   \<and> (\<exists>n\<le>108. \<exists>co'.
         resumes n (acclimate (reading 25 50 cooling))
           = Inr co'
         \<and> suspended_at co' = final_suspend
         \<and> (\<exists>r. promise co' = Some r \<and> state r = charging))"
  using acclimate_ends_in_domain
          [of "(reading 25 50 cooling)"]
  by simp

text \<open>
  C5 as the specification states it holds for any \<^verbatim>\<open>temperature\<close> and \<^verbatim>\<open>batteryCharge\<close>.
  With both at \<open>2\<^sup>6\<^sup>0\<close>, \<^verbatim>\<open>temperature - 0.1\<close> and \<^verbatim>\<open>batteryCharge - 0.8\<close> round back to
  \<open>2\<^sup>6\<^sup>0\<close>: every resumption yields at line 45 again, and no number of resumptions takes
  the coroutine to its end.
\<close>

theorem acclimate_huge_reading_never_ends:
  "\<not> (\<exists>n co'. resumes n (acclimate
          (reading (2 ^ 60) (2 ^ 60) start)) = Inr co'
        \<and> suspended_at co' = final_suspend)"
  using huge_reading_repeats by (simp add: acclimate_huge_reading)

section \<open>The charging coroutine\<close>

text \<open>
  C7, as the code has it. \<^verbatim>\<open>94.8 + 0.1\<close> is 94.89999999999999 in \<^verbatim>\<open>double\<close>, which is below
  \<^verbatim>\<open>94.9\<close>: called with \<^verbatim>\<open>batteryCharge = 94.8\<close>, \<^verbatim>\<open>charger\<close> runs its loop body twice. It
  returns \<^verbatim>\<open>batteryCharge\<close> 94.99999999999999, \<^verbatim>\<open>temperature\<close> with \<^verbatim>\<open>0.01\<close> added twice, and
  \<^verbatim>\<open>state\<close> as it was.
\<close>

theorem charger_94_8_two_iterations:
  "charger \<lparr>temperature = t, batteryCharge = rnd (948 / 10), state = s\<rparr>
     = Some \<lparr>suspended_at = final_suspend,
              frame = \<lparr>temperature = dadd (dadd t lit_0_01) lit_0_01,
                       batteryCharge = Fin (6685030696878079 / 70368744177664), state = s\<rparr>,
              promise = Some \<lparr>temperature = dadd (dadd t lit_0_01) lit_0_01,
                       batteryCharge = Fin (6685030696878079 / 70368744177664), state = s\<rparr>\<rparr>
   \<and> dlt (dadd (rnd (948 / 10)) lit_0_1) lit_94_9"
  by (simp add: charger.simps charge_body_def lit_94_8_value lit_0_1_value lit_94_9_value
        rnd_64 round_ties_even_def Let_def floor_rat_numeral)

text \<open>
  C7 as the specification states it: one iteration. The coroutine that \<^verbatim>\<open>charger\<close> returns
  for (19, 94.8) is not the one that stops after the loop body has run once.
\<close>

theorem charger_94_8_not_one_iteration:
  "charger \<lparr>temperature = Fin 19, batteryCharge = rnd (948 / 10), state = charging\<rparr>
     \<noteq> Some \<lparr>suspended_at = final_suspend,
              frame = charge_body
                \<lparr>temperature = Fin 19, batteryCharge = rnd (948 / 10), state = charging\<rparr>,
              promise = Some (charge_body
                \<lparr>temperature = Fin 19, batteryCharge = rnd (948 / 10), state = charging\<rparr>)\<rparr>"
  by (simp add: charger.simps charge_body_def lit_94_8_value arith_eval)

text \<open>
  C6, as the code has it. Called with a reading whose \<^verbatim>\<open>batteryCharge\<close> is between 0 and
  100, \<^verbatim>\<open>charger\<close> returns. The reading in its promise is the result of \<open>j\<close> passes
  through the loop body, each entered with \<^verbatim>\<open>batteryCharge\<close> below \<^verbatim>\<open>94.9\<close>; its
  \<^verbatim>\<open>batteryCharge\<close> is at least \<^verbatim>\<open>94.9\<close> and its \<^verbatim>\<open>state\<close> is the one of the call.
\<close>

theorem charger_returns_in_domain:
  assumes "batteryCharge m = Fin q" and "0 \<le> q" and "q \<le> 100"
  shows "\<exists>j r. charger m = Some \<lparr>suspended_at = final_suspend, frame = r, promise = Some r\<rparr>
           \<and> r = (charge_body ^^ j) m
           \<and> (\<forall>i<j. dlt (batteryCharge ((charge_body ^^ i) m)) lit_94_9)
           \<and> dge (batteryCharge r) lit_94_9
           \<and> state r = state m"
proof -
  have "95 - q \<le> of_nat 1056 * (9 / 100)" using assms(2) by simp
  then obtain j q' where r:
      "charger m = Some \<lparr>suspended_at = final_suspend, frame = (charge_body ^^ j) m,
                         promise = Some ((charge_body ^^ j) m)\<rparr>"
      "\<forall>i<j. dlt (batteryCharge ((charge_body ^^ i) m)) lit_94_9"
      "batteryCharge ((charge_body ^^ j) m) = Fin q'"
      "3338996911230157 / 35184372088832 \<le> q'"
    using charger_runs[OF assms] by blast
  have "dge (batteryCharge ((charge_body ^^ j) m)) lit_94_9"
    using r(3,4) by (simp add: dge_def lit_94_9_value)
  then show ?thesis using r(1,2) charge_body_state by blast
qed

theorem charger_returns_in_domain_witness:
  "batteryCharge (reading 19 (6670956948042547 / 70368744177664) charging)
     = Fin (6670956948042547 / 70368744177664)
   \<and> (0::rat) \<le> 6670956948042547 / 70368744177664 \<and> (6670956948042547 / 70368744177664 :: rat) \<le> 100
   \<and> (\<exists>j r. charger (reading 19 (6670956948042547 / 70368744177664) charging)
               = Some \<lparr>suspended_at = final_suspend, frame = r, promise = Some r\<rparr>
            \<and> r = (charge_body ^^ j)
                  (reading 19 (6670956948042547 / 70368744177664) charging)
            \<and> (\<forall>i<j. dlt (batteryCharge ((charge_body ^^ i)
                  (reading 19 (6670956948042547 / 70368744177664) charging)))
                  lit_94_9)
            \<and> dge (batteryCharge r) lit_94_9 \<and> state r = charging)"
  using charger_returns_in_domain
          [of "(reading 19 (6670956948042547 / 70368744177664) charging)"
              "6670956948042547 / 70368744177664"]
  by simp

text \<open>
  C6 as the specification states it holds for every reading. With \<^verbatim>\<open>batteryCharge\<close> at
  \<open>- 2\<^sup>6\<^sup>0\<close>, \<^verbatim>\<open>batteryCharge + 0.1\<close> rounds back to \<open>- 2\<^sup>6\<^sup>0\<close> and the loop of \<^verbatim>\<open>charger\<close>
  never ends.
\<close>

theorem charger_huge_negative_never_returns:
  "charger (reading 20 (- (2 ^ 60)) charging) = None"
proof (cases "charger (reading 20 (- 1152921504606846976) charging)")
  case None
  then show ?thesis by simp
next
  case (Some y)
  then show ?thesis using charger_stuck[OF Some] by simp
qed

section \<open>The loop of \<^verbatim>\<open>main\<close>\<close>

text \<open>
  C3. In \<^verbatim>\<open>case charging\<close>, when the reading \<open>r\<close> that \<^verbatim>\<open>charger\<close> left in its promise has
  \<^verbatim>\<open>temperature\<close> above 20, the iteration ends with a new \<^verbatim>\<open>acclimate\<close> coroutine in
  \<^verbatim>\<open>handle\<close> and with \<^verbatim>\<open>info\<close> equal to \<open>r\<close> except for \<^verbatim>\<open>state = cooling\<close>: the reading that
  the new coroutine has yielded is not copied (lines 134 to 138).
\<close>

theorem charging_case_cooling_branch:
  assumes "state (info c) = charging"
    and "charger (info c) = Some h2" and "promise h2 = Some r"
    and "dgt (temperature r) lit_20"
  shows "dispatch c = Inr (c\<lparr>info := r\<lparr>state := cooling\<rparr>, handle := Some (acclimate r)\<rparr>)"
proof -
  have "\<not> dlt (temperature r) lit_18"
    using assms(4) dlt_18_not_dgt_20 by blast
  then show ?thesis using assms by (simp add: dispatch_def charging_case_def)
qed

theorem charging_case_cooling_branch_witness:
  "dispatch \<lparr>info = reading 25 95 charging, handle = None, rand_state = \<lambda>n. 0\<rparr>
     = Inr \<lparr>info = reading 25 95 cooling,
            handle = Some (suspended cooling_yield
                (reading (3504363460047667 / 140737488355328) (6628735701535949 / 70368744177664) cooling)),
            rand_state = \<lambda>n. 0\<rparr>"
proof -
  let ?c = "\<lparr>info = reading 25 95 charging, handle = None, rand_state = \<lambda>n. 0\<rparr>"
  let ?h = "(suspended final_suspend (reading 25 95 charging))"
  have 1: "state (info ?c) = charging" by simp
  have 2: "charger (info ?c) = Some ?h"
    by (simp add: charger.simps arith_eval)
  have 3: "promise ?h = Some (reading 25 95 charging)"
    by simp
  have 4: "dgt (temperature (reading 25 95 charging)) lit_20"
    by (simp add: arith_eval)
  show ?thesis
    using charging_case_cooling_branch[OF 1 2 3 4]
    by (simp add: coroutine_eval arith_eval)
qed

text \<open>
  C1, as the code has it. \<^verbatim>\<open>case start\<close> (lines 103 to 108) ends with \<^verbatim>\<open>info\<close> as
  \<^verbatim>\<open>init_values\<close> left it: \<^verbatim>\<open>rand() % 55\<close>, \<^verbatim>\<open>rand() % 100\<close> and the state of the
  classification. The new \<^verbatim>\<open>acclimate\<close> coroutine has run to its first \<^verbatim>\<open>co_yield\<close>, and the
  reading it yielded stays in its promise: it is one cooling or heating step ahead of
  \<^verbatim>\<open>info\<close>, or it is \<^verbatim>\<open>info\<close> with \<^verbatim>\<open>state = charging\<close>.
\<close>

theorem start_case_keeps_initial_reading:
  assumes "state (info c) = start"
  shows "\<exists>c' h. dispatch c = Inr c' \<and> handle c' = Some h \<and> h = acclimate (info c')
           \<and> info c' = fst (init_values (rand_state c) (info c))
           \<and> temperature (info c') = Fin (of_nat (rand_state c 0 mod 55))
           \<and> batteryCharge (info c') = Fin (of_nat (rand_state c 1 mod 100))
           \<and> (state (info c') = cooling \<longrightarrow>
                 promise h = Some ((info c')\<lparr>
                   temperature := dsub (temperature (info c')) lit_0_1,
                   batteryCharge := dsub (batteryCharge (info c')) lit_0_8\<rparr>))
           \<and> (state (info c') = heating \<longrightarrow>
                 promise h = Some ((info c')\<lparr>
                   temperature := dadd (temperature (info c')) lit_0_1,
                   batteryCharge := dsub (batteryCharge (info c')) lit_0_8\<rparr>))
           \<and> (state (info c') = finish \<or> state (info c') = charging \<longrightarrow>
                 promise h = Some ((info c')\<lparr>state := charging\<rparr>))"
  using assms
  by (auto simp add: dispatch_def init_values_def Let_def coroutine_eval dgt_def dge_def
        lit_18_def lit_20_def)

theorem start_case_keeps_initial_reading_witness:
  "state (info (main_entry NaN NaN (\<lambda>n. if n = 0 then 15 else 50))) = start
   \<and> dispatch (main_entry NaN NaN (\<lambda>n. if n = 0 then 15 else 50))
       = Inr \<lparr>info = reading 15 50 heating,
              handle = Some (suspended heating_yield
                  (reading (8500544296661811 / 562949953421312) (3462142213541069 / 70368744177664) heating)),
              rand_state = \<lambda>n. 50\<rparr>"
  using start_case_keeps_initial_reading
          [of "main_entry NaN NaN (\<lambda>n. if n = 0 then 15 else 50)"]
  by (simp add: main_eval coroutine_eval arith_eval)

text \<open>
  C1 as the specification states it has \<^verbatim>\<open>info\<close> equal to the first reading of the new
  coroutine after \<^verbatim>\<open>case start\<close>. With 25 and 50 from \<^verbatim>\<open>rand()\<close>, \<^verbatim>\<open>info\<close> is (25, 50,
  cooling) and the promise holds (24.9, 49.2, cooling).
\<close>

theorem start_case_first_yield_not_adopted:
  "dispatch (main_entry NaN NaN (\<lambda>n. if n = 0 then 25 else 50))
     = Inr \<lparr>info = reading 25 50 cooling,
            handle = Some (suspended cooling_yield
                (reading (3504363460047667 / 140737488355328) (3462142213541069 / 70368744177664) cooling)),
            rand_state = \<lambda>n. 50\<rparr>
   \<and> (reading 25 50 cooling)
       \<noteq>
           (reading (3504363460047667 / 140737488355328) (3462142213541069 / 70368744177664) cooling)"
  by (simp add: main_eval coroutine_eval arith_eval)

text \<open>
  C2, as the code has it. \<^verbatim>\<open>case finish\<close> (lines 117 to 120) changes \<^verbatim>\<open>info.state\<close> to
  \<^verbatim>\<open>start\<close> and nothing else. The iteration after it is \<^verbatim>\<open>case start\<close>, where \<^verbatim>\<open>init_values\<close>
  overwrites \<^verbatim>\<open>temperature\<close> and \<^verbatim>\<open>batteryCharge\<close> with the next two results of \<^verbatim>\<open>rand()\<close>.
\<close>

theorem finish_case_then_start_redraws:
  assumes "state (info c) = finish"
  shows "dispatch c = Inr (c\<lparr>info := (info c)\<lparr>state := start\<rparr>\<rparr>)
       \<and> (\<exists>c''. main_loop 2 c = Inr c''
              \<and> temperature (info c'') = Fin (of_nat (rand_state c 0 mod 55))
              \<and> batteryCharge (info c'') = Fin (of_nat (rand_state c 1 mod 100)))"
  using assms
  by (simp add: main_loop_numeral exited_def dispatch_def init_values_def Let_def)

theorem finish_case_then_start_redraws_witness:
  "state (info \<lparr>info = reading 19 50 finish, handle = None, rand_state = \<lambda>n. if n = 0 then 25 else 60\<rparr>)
     = finish
   \<and> main_loop 2 \<lparr>info = reading 19 50 finish, handle = None, rand_state = \<lambda>n. if n = 0 then 25 else 60\<rparr>
       = Inr \<lparr>info = reading 25 60 cooling,
              handle = Some (suspended cooling_yield
                  (reading (3504363460047667 / 140737488355328) (4165829655317709 / 70368744177664) cooling)),
              rand_state = \<lambda>n. 60\<rparr>"
  using finish_case_then_start_redraws
          [of "\<lparr>info = reading 19 50 finish, handle = None, rand_state = \<lambda>n. if n = 0 then 25 else 60\<rparr>"]
  by (simp add: main_loop_numeral main_eval coroutine_eval arith_eval)

text \<open>
  C2 as the specification states it has the cycle after \<^verbatim>\<open>finish\<close> reuse the old
  \<^verbatim>\<open>temperature\<close> and \<^verbatim>\<open>batteryCharge\<close>. With 19, 50, 25 and 60 from \<^verbatim>\<open>rand()\<close>, the first
  iteration of \<^verbatim>\<open>main\<close> ends in (19, 50, finish), the second in (19, 50, start) and the third
  in (25, 60, cooling).
\<close>

theorem finish_values_not_reused:
  "main_loop 1 (main_entry NaN NaN (\<lambda>n. if n = 0 then 19 else if n = 1 then 50 else if n = 2 then 25 else 60))
     = Inr \<lparr>info = reading 19 50 finish,
            handle = Some (suspended band_yield (reading 19 50 charging)),
            rand_state = \<lambda>n. if n = 0 then 25 else 60\<rparr>
   \<and> main_loop 2 (main_entry NaN NaN (\<lambda>n. if n = 0 then 19 else if n = 1 then 50 else if n = 2 then 25 else 60))
     = Inr \<lparr>info = reading 19 50 start,
            handle = Some (suspended band_yield (reading 19 50 charging)),
            rand_state = \<lambda>n. if n = 0 then 25 else 60\<rparr>
   \<and> main_loop 3 (main_entry NaN NaN (\<lambda>n. if n = 0 then 19 else if n = 1 then 50 else if n = 2 then 25 else 60))
     = Inr \<lparr>info = reading 25 60 cooling,
            handle = Some (suspended cooling_yield
                (reading (3504363460047667 / 140737488355328) (4165829655317709 / 70368744177664) cooling)),
            rand_state = \<lambda>n. 60\<rparr>"
  by (simp add: main_loop_numeral main_eval coroutine_eval arith_eval fun_eq_iff)

text \<open>
  C10. From the entry of \<^verbatim>\<open>main\<close>, whatever \<^verbatim>\<open>rand()\<close> returns, every iteration of the loop
  completes (no coroutine is resumed after its end, and every call of \<^verbatim>\<open>charger\<close>
  returns) and leaves \<^verbatim>\<open>info.state\<close> different from \<^verbatim>\<open>standby\<close>: after any number \<open>n\<close> of
  iterations the loop condition still holds.
\<close>

theorem main_loop_never_exits:
  "\<exists>c'. main_loop n (main_entry t0 b0 rng) = Inr c' \<and> \<not> exited c'"
proof -
  have "loop_inv (main_entry t0 b0 rng)" by (simp add: loop_inv_def main_entry_def)
  then obtain c' where "main_loop n (main_entry t0 b0 rng) = Inr c'" "loop_inv c'"
    using main_loop_inv by blast
  then show ?thesis by (auto simp add: loop_inv_def exited_def)
qed

end
